(* ===== verification/Prelude.thy ===== *)
theory Prelude
  imports Main "HOL-Library.Word" "HOL-Library.AList" "HOL-Library.Multiset"
begin

text \<open>
  What the components share: the names of the model's basic types, Go's clock and
  64-bit integers, Go's maps as association lists with an interface of laws, and the
  generic notion of a transition system with its invariant rule.

  \<^item> A Go \<open>time.Time\<close> is an \<open>int\<close>: nanoseconds since Go's zero instant (1 January of
    year 1), so that \<open>IsZero\<close> is equality with 0. A \<open>time.Duration\<close> is an \<open>int\<close> of
    nanoseconds; where the program computes with durations or stores an instant in an
    \<open>int64\<close>, the wrap-around or the saturation of the library is written out.
  \<^item> A \<open>uint64\<close> generation counter is a \<open>64 word\<close>.
  \<^item> A Go \<open>map\<close> is an association list with distinct keys; the order of the list plays
    the part of the (unspecified) iteration order.
\<close>

section \<open>Names of the basic types\<close>

type_synonym byte = "8 word"
type_synonym bytes = "byte list"
type_synonym time = int
type_synonym duration = int
type_synonym uint64 = "64 word"
type_synonym int64 = "64 word"

text \<open>Collections the component proofs draw on.\<close>

named_theorems go_time \<open>definitions of the clock operations\<close>
named_theorems session_defs \<open>definitions of the session operations\<close>
named_theorems proxy_defs \<open>definitions of the proxy's critical sections\<close>

section \<open>Clock and durations\<close>

definition nanosecond :: duration where "nanosecond = 1"
definition second :: duration where "second = 1000000000"
definition minute :: duration where "minute = 60 * second"

definition time_zero :: time where "time_zero = 0"

definition time_IsZero :: "time \<Rightarrow> bool" where
  "time_IsZero t \<longleftrightarrow> t = time_zero"

definition time_Before :: "time \<Rightarrow> time \<Rightarrow> bool" where
  "time_Before t u \<longleftrightarrow> t < u"

definition time_Add :: "time \<Rightarrow> duration \<Rightarrow> time" where
  "time_Add t d = t + d"

text \<open>\<open>Time.Sub\<close> saturates at the bounds of a \<open>Duration\<close>.\<close>

definition max_int64 :: int where "max_int64 = 2 ^ 63 - 1"
definition min_int64 :: int where "min_int64 = - (2 ^ 63)"

definition time_Sub :: "time \<Rightarrow> time \<Rightarrow> duration" where
  "time_Sub t u = max min_int64 (min max_int64 (t - u))"

text \<open>Two's complement wrap-around of a 64-bit result.\<close>

definition wrap64 :: "int \<Rightarrow> int" where
  "wrap64 x = (x + 2 ^ 63) mod 2 ^ 64 - 2 ^ 63"

text \<open>
  \<open>UnixNano\<close> and \<open>time.Unix\<close>: an instant as an \<open>int64\<close> count of nanoseconds from 1970.
  62135596800 seconds separate Go's zero instant from the Unix epoch.
\<close>

definition unix_epoch :: time where
  "unix_epoch = 62135596800 * second"

definition UnixNano :: "time \<Rightarrow> int64" where
  "UnixNano t = word_of_int (t - unix_epoch)"

definition time_Unix_nano :: "int64 \<Rightarrow> time" where
  "time_Unix_nano n = unix_epoch + sint n"

text \<open>The instants an \<open>int64\<close> of Unix nanoseconds can hold (1677 to 2262).\<close>

definition nano_range :: "time \<Rightarrow> bool" where
  "nano_range t \<longleftrightarrow> min_int64 \<le> t - unix_epoch \<and> t - unix_epoch \<le> max_int64"

lemmas [go_time] = nanosecond_def second_def minute_def time_zero_def time_IsZero_def
  time_Before_def time_Add_def time_Sub_def max_int64_def min_int64_def

lemma UnixNano_roundtrip:
  assumes "nano_range t"
  shows "time_Unix_nano (UnixNano t) = t"
proof -
  have "sint (word_of_int (t - unix_epoch) :: int64) = t - unix_epoch"
    using assms unfolding sint_sbintrunc'
    by (simp add: signed_take_bit_int_eq_self_iff nano_range_def go_time)
  then show ?thesis by (simp add: time_Unix_nano_def UnixNano_def)
qed

lemma wrap64_id: "min_int64 \<le> x \<Longrightarrow> x \<le> max_int64 \<Longrightarrow> wrap64 x = x"
  by (simp add: wrap64_def go_time)

lemma wrap64_range: "min_int64 \<le> wrap64 x \<and> wrap64 x \<le> max_int64"
  using pos_mod_bound [of "2 ^ 64" "x + 2 ^ 63"] pos_mod_sign [of "2 ^ 64" "x + 2 ^ 63"]
  unfolding wrap64_def max_int64_def min_int64_def by simp

text \<open>
  A comparison of a saturated difference with a positive duration says what the
  comparison of the exact difference says.
\<close>

lemma time_Sub_less_iff:
  assumes "min_int64 < d" "d \<le> max_int64"
  shows "time_Sub t u < d \<longleftrightarrow> t - u < d"
  using assms by (auto simp: time_Sub_def)

lemma succ_neq_word [simp]: "(g :: uint64) + 1 \<noteq> g" "g \<noteq> (g :: uint64) + 1"
  by simp_all

section \<open>Go maps\<close>

text \<open>The interface of a Go map: lookup, store, delete, size, keys in iteration order.\<close>

locale go_map =
  fixes get :: "'m \<Rightarrow> 'k \<Rightarrow> 'v option"
    and put :: "'k \<Rightarrow> 'v \<Rightarrow> 'm \<Rightarrow> 'm"
    and del :: "'k \<Rightarrow> 'm \<Rightarrow> 'm"
    and len :: "'m \<Rightarrow> int"
    and wf :: "'m \<Rightarrow> bool"
  assumes get_put: "wf m \<Longrightarrow> get (put k v m) = (get m)(k \<mapsto> v)"
    and get_del: "wf m \<Longrightarrow> get (del k m) = (get m)(k := None)"
    and wf_put: "wf m \<Longrightarrow> wf (put k v m)"
    and wf_del: "wf m \<Longrightarrow> wf (del k m)"
    and len_dom: "wf m \<Longrightarrow> len m = int (card (dom (get m)))"
    and finite_dom: "wf m \<Longrightarrow> finite (dom (get m))"
begin

lemma len_put_new: "wf m \<Longrightarrow> get m k = None \<Longrightarrow> len (put k v m) = len m + 1"
  by (simp add: len_dom wf_put get_put finite_dom domIff)

lemma len_put_old: "wf m \<Longrightarrow> get m k = Some w \<Longrightarrow> len (put k v m) = len m"
  by (simp add: len_dom wf_put get_put insert_absorb domI)

lemma len_del_old: "wf m \<Longrightarrow> get m k = Some w \<Longrightarrow> len (del k m) = len m - 1"
proof -
  assume "wf m" and k: "get m k = Some w"
  then have "0 < card (dom (get m))" by (auto simp: card_gt_0_iff finite_dom)
  then have "int (card (dom (get m) - {k})) = int (card (dom (get m))) - 1"
    using \<open>wf m\<close> k by (simp add: finite_dom domI of_nat_diff)
  with \<open>wf m\<close> show ?thesis by (simp add: len_dom wf_del get_del)
qed

lemma len_nonneg: "wf m \<Longrightarrow> 0 \<le> len m"
  by (simp add: len_dom)

lemma len_zero_iff: "wf m \<Longrightarrow> len m = 0 \<longleftrightarrow> get m = Map.empty"
  by (simp add: len_dom finite_dom)

end

type_synonym ('k, 'v) gomap = "('k \<times> 'v) list"

definition gm_wf :: "('k, 'v) gomap \<Rightarrow> bool" where
  "gm_wf m \<longleftrightarrow> distinct (map fst m)"

definition gm_len :: "('k, 'v) gomap \<Rightarrow> int" where
  "gm_len m = int (length m)"

interpretation gm: go_map map_of AList.update AList.delete gm_len gm_wf
proof unfold_locales
  fix m :: "('a, 'b) gomap" and k v
  show "map_of (AList.update k v m) = (map_of m)(k \<mapsto> v)" by (rule update_conv')
  show "map_of (AList.delete k m) = (map_of m)(k := None)" by (rule delete_conv')
  assume "gm_wf m"
  then show "gm_wf (AList.update k v m)" "gm_wf (AList.delete k m)"
    by (auto simp: gm_wf_def distinct_update distinct_delete)
  show "finite (dom (map_of m))" by (rule finite_dom_map_of)
  from \<open>gm_wf m\<close> show "gm_len m = int (card (dom (map_of m)))"
    by (metis gm_wf_def gm_len_def dom_map_of_conv_image_fst distinct_card set_map length_map)
qed

lemma update_new: "map_of m k = None \<Longrightarrow> AList.update k v m = m @ [(k, v)]"
  by (induction m) (auto split: if_splits)

lemma gm_wf_Nil [simp]: "gm_wf []"
  by (simp add: gm_wf_def)

lemma gm_wf_filter [simp]: "gm_wf m \<Longrightarrow> gm_wf (filter P m)"
  by (simp add: gm_wf_def distinct_map_filter)

lemma map_of_filter_key: "gm_wf m \<Longrightarrow>
  map_of (filter (\<lambda>(k, v). P k v) m) x
    = (case map_of m x of None \<Rightarrow> None | Some v \<Rightarrow> if P x v then Some v else None)"
  by (induction m) (auto simp: gm_wf_def split: option.splits dest: map_of_SomeD
      intro: rev_image_eqI)

section \<open>Transition systems\<close>

text \<open>
  A program's runs: an initial predicate and a labelled step relation. An invariant that
  holds initially and is kept by every step holds in every reachable state.
\<close>

inductive reach :: "('s \<Rightarrow> bool) \<Rightarrow> ('s \<Rightarrow> 'l \<Rightarrow> 's \<Rightarrow> bool) \<Rightarrow> 's \<Rightarrow> bool"
  for init :: "'s \<Rightarrow> bool" and step :: "'s \<Rightarrow> 'l \<Rightarrow> 's \<Rightarrow> bool" where
  reach_init: "init s \<Longrightarrow> reach init step s"
| reach_step: "reach init step s \<Longrightarrow> step s l t \<Longrightarrow> reach init step t"

text \<open>A run: the labels of the steps from one state to another, in order.\<close>

inductive steps :: "('s \<Rightarrow> 'l \<Rightarrow> 's \<Rightarrow> bool) \<Rightarrow> 's \<Rightarrow> 'l list \<Rightarrow> 's \<Rightarrow> bool"
  for step :: "'s \<Rightarrow> 'l \<Rightarrow> 's \<Rightarrow> bool" where
  steps_Nil: "steps step s [] s"
| steps_Cons: "step s l t \<Longrightarrow> steps step t ls u \<Longrightarrow> steps step s (l # ls) u"

inductive_simps steps_simps [simp]: "steps step s [] t" "steps step s (l # ls) t"

lemma reach_steps: "steps step s ls t \<Longrightarrow> reach init step s \<Longrightarrow> reach init step t"
  by (induction rule: steps.induct) (auto intro: reach_step)

locale inductive_invariant =
  fixes init :: "'s \<Rightarrow> bool" and step :: "'s \<Rightarrow> 'l \<Rightarrow> 's \<Rightarrow> bool" and inv :: "'s \<Rightarrow> bool"
  assumes inv_init: "init s \<Longrightarrow> inv s"
    and inv_step: "inv s \<Longrightarrow> step s l t \<Longrightarrow> inv t"
begin

lemma inv_reach: "reach init step s \<Longrightarrow> inv s"
  by (induction rule: reach.induct) (auto intro: inv_init inv_step)

lemma inv_steps: "steps step s ls t \<Longrightarrow> inv s \<Longrightarrow> inv t"
  by (induction rule: steps.induct) (auto intro: inv_step)

end

end
