(* ===== verification/GoErrors.thy ===== *)
theory GoErrors
  imports Prelude
begin

text \<open>
  The error values of the program as a datatype, and the library functions that walk an
  error tree (\<open>errors.Is\<close>, \<open>errors.As\<close>, \<open>errors.Join\<close>). A Go result of type \<open>error\<close> is a
  \<open>goerror option\<close>, with \<open>None\<close> for \<open>nil\<close>. The error types the program itself declares
  are constructors: \<open>permanentError\<close> and \<open>redactedError\<close> (pkg/server),
  \<open>inconclusiveReadinessError\<close> (pkg/readiness), the sentinels of pkg/session.
\<close>

datatype goerror =
    ErrText string
  | ErrHTTP string int string string
  | ErrHTTPRead string int goerror
  | Wrap string goerror
  | DeadlineExceeded
  | Canceled
  | NetErr bool goerror
  | ErrNetClosed
  | ErrServerClosed
  | EOF
  | ErrSessionCapacity
  | ErrSessionClosed
  | PermanentError goerror
  | RedactedError goerror string
  | InconclusiveReadinessError goerror
  | JoinErr "goerror list"

text \<open>
  \<open>ErrText\<close> is a leaf made by \<open>errors.New\<close> or by \<open>fmt.Errorf\<close> without \<open>%w\<close>; \<open>ErrHTTP\<close> is
  the leaf \<open>responseError\<close> formats, with the operation, the status code, the body excerpt
  and the suffix as arguments; \<open>ErrHTTPRead\<close> the one it formats when the body cannot be read
  (the read error is printed with \<open>%v\<close>, not wrapped); \<open>Wrap\<close> is \<open>fmt.Errorf("...: %w", err)\<close>; \<open>NetErr b e\<close> is a
  library error that implements \<open>net.Error\<close> with \<open>Timeout() = b\<close> and unwraps to \<open>e\<close>.

  \<open>err_chain\<close> lists an error and everything it unwraps to, in the depth-first order
  of \<open>errors.Is\<close> and \<open>errors.As\<close>.
\<close>

fun err_chain :: "goerror \<Rightarrow> goerror list" where
  "err_chain (Wrap m e) = Wrap m e # err_chain e"
| "err_chain (NetErr b e) = NetErr b e # err_chain e"
| "err_chain (PermanentError e) = PermanentError e # err_chain e"
| "err_chain (RedactedError e m) = RedactedError e m # err_chain e"
| "err_chain (InconclusiveReadinessError e) = InconclusiveReadinessError e # err_chain e"
| "err_chain (JoinErr es) = JoinErr es # concat (map err_chain es)"
| "err_chain e = [e]"

fun errors_Is :: "goerror option \<Rightarrow> goerror \<Rightarrow> bool" where
  "errors_Is None target = False"
| "errors_Is (Some e) target = List.member (err_chain e) target"

text \<open>\<open>errors.As\<close>: the first error of the chain that the probe \<open>f\<close> recognises.\<close>

fun first_some :: "('a \<Rightarrow> 'b option) \<Rightarrow> 'a list \<Rightarrow> 'b option" where
  "first_some f [] = None"
| "first_some f (x # xs) = (case f x of Some y \<Rightarrow> Some y | None \<Rightarrow> first_some f xs)"

fun errors_As :: "(goerror \<Rightarrow> 'a option) \<Rightarrow> goerror option \<Rightarrow> 'a option" where
  "errors_As f None = None"
| "errors_As f (Some e) = first_some f (err_chain e)"

text \<open>\<open>errors.Join\<close> drops nil arguments and is nil when nothing is left.\<close>

definition errors_Join :: "goerror option \<Rightarrow> goerror option \<Rightarrow> goerror option" where
  "errors_Join a b = (case (a, b) of
     (None, None) \<Rightarrow> None
   | (Some x, None) \<Rightarrow> Some (JoinErr [x])
   | (None, Some y) \<Rightarrow> Some (JoinErr [y])
   | (Some x, Some y) \<Rightarrow> Some (JoinErr [x, y]))"

lemma errors_Join_None [simp]: "errors_Join None None = None"
  by (simp add: errors_Join_def)

lemma errors_Join_eq_None [simp]: "errors_Join a b = None \<longleftrightarrow> a = None \<and> b = None"
  by (auto simp: errors_Join_def split: option.splits)

section \<open>Permanence (\<open>server.IsPermanent\<close>)\<close>

text \<open>
  The types with a method \<open>Permanent() bool\<close> are \<open>permanentError\<close>, which answers true, and
  \<open>inconclusiveReadinessError\<close>, which asks \<open>IsPermanent\<close> about the error it wraps.
  \<open>as_Permanent\<close> is the answer of the first such error of the tree.
\<close>

fun as_Permanent :: "goerror \<Rightarrow> bool option" where
  "as_Permanent (PermanentError e) = Some True"
| "as_Permanent (InconclusiveReadinessError e) = Some (as_Permanent e = Some True)"
| "as_Permanent (Wrap m e) = as_Permanent e"
| "as_Permanent (NetErr b e) = as_Permanent e"
| "as_Permanent (RedactedError e m) = as_Permanent e"
| "as_Permanent (JoinErr es) = first_some (\<lambda>x. x) (map as_Permanent es)"
| "as_Permanent e = None"

definition IsPermanent :: "goerror option \<Rightarrow> bool" where
  "IsPermanent err = (case err of None \<Rightarrow> False | Some e \<Rightarrow> as_Permanent e = Some True)"

definition markPermanent :: "goerror option \<Rightarrow> goerror option" where
  "markPermanent err = (case err of None \<Rightarrow> None | Some e \<Rightarrow> Some (PermanentError e))"

lemma IsPermanent_simps [simp]:
  "\<not> IsPermanent None"
  "IsPermanent (Some (PermanentError e))"
  "IsPermanent (Some (InconclusiveReadinessError e)) = IsPermanent (Some e)"
  "IsPermanent (Some (Wrap m e)) = IsPermanent (Some e)"
  "IsPermanent (Some (NetErr b e)) = IsPermanent (Some e)"
  "IsPermanent (Some (RedactedError e m)) = IsPermanent (Some e)"
  "\<not> IsPermanent (Some (ErrText m))"
  "\<not> IsPermanent (Some (ErrHTTP op n body sfx))"
  "\<not> IsPermanent (Some (ErrHTTPRead op n re))"
  "\<not> IsPermanent (Some DeadlineExceeded)"
  "\<not> IsPermanent (Some Canceled)"
  "IsPermanent (markPermanent (Some e))"
  by (simp_all add: IsPermanent_def markPermanent_def)

section \<open>Inconclusiveness and failure classes (pkg/proxy)\<close>

text \<open>The only type with \<open>ReadinessInconclusive() bool\<close> is \<open>inconclusiveReadinessError\<close>.\<close>

fun ReadinessInconclusive :: "goerror \<Rightarrow> bool option" where
  "ReadinessInconclusive (InconclusiveReadinessError e) = Some True"
| "ReadinessInconclusive e = None"

definition backendReadinessInconclusive :: "goerror option \<Rightarrow> bool" where
  "backendReadinessInconclusive err \<longleftrightarrow> errors_As ReadinessInconclusive err = Some True"

text \<open>
  \<open>context.DeadlineExceeded\<close> itself implements \<open>net.Error\<close> with \<open>Timeout() = true\<close>.
\<close>

fun net_Error_Timeout :: "goerror \<Rightarrow> bool option" where
  "net_Error_Timeout (NetErr b e) = Some b"
| "net_Error_Timeout DeadlineExceeded = Some True"
| "net_Error_Timeout e = None"

definition backendHealthFailureClass :: "goerror option \<Rightarrow> string" where
  "backendHealthFailureClass err =
     (if errors_Is err DeadlineExceeded then ''timeout''
      else if errors_Is err Canceled then ''canceled''
      else if errors_As net_Error_Timeout err = Some True then ''timeout''
      else ''probe_failure'')"

lemma first_some_append:
  "first_some f (xs @ ys) = (case first_some f xs of None \<Rightarrow> first_some f ys | r \<Rightarrow> r)"
  by (induction xs) (auto split: option.splits)

lemma first_some_None: "first_some f xs = None \<longleftrightarrow> (\<forall>x \<in> set xs. f x = None)"
  by (induction xs) (auto split: option.splits)

lemma backendReadinessInconclusive_iff:
  "backendReadinessInconclusive (Some e)
     \<longleftrightarrow> (\<exists>e'. InconclusiveReadinessError e' \<in> set (err_chain e))"
proof -
  have *: "first_some ReadinessInconclusive xs = Some True
     \<longleftrightarrow> (\<exists>e'. InconclusiveReadinessError e' \<in> set xs)" for xs
  proof (induction xs)
    case (Cons x xs)
    then show ?case by (cases x) auto
  qed simp
  show ?thesis by (simp add: backendReadinessInconclusive_def *)
qed

lemma backendReadinessInconclusive_simps [simp]:
  "\<not> backendReadinessInconclusive None"
  "backendReadinessInconclusive (Some (InconclusiveReadinessError e))"
  "backendReadinessInconclusive (Some (Wrap m e)) = backendReadinessInconclusive (Some e)"
  "\<not> backendReadinessInconclusive (Some (ErrText m))"
  by (auto simp: backendReadinessInconclusive_def)

end
