(* ===== verification/Session.thy ===== *)
theory Session
  imports GoErrors
begin

text \<open>
  pkg/session/session.go: one client flow, its upstream socket and its two goroutines.
  The record holds the fields of \<open>Session\<close> and what the outside sees of it: whether the
  upstream socket is open and how often it was closed, which goroutines still run, and the
  datagrams written to the backend and to the client, in order. Results of the network
  (dial, write, read) and readings of the clock are arguments. Each method is atomic:
  \<open>activityMu\<close> and \<open>closeOnce\<close> serialise them in the source.
\<close>

type_synonym udp_addr = string
type_synonym conn = nat

record session =
  clientAddr :: udp_addr
  publicConn :: conn
  maxPacket :: int
  lastActivity :: int64
  closed :: bool
  closeOnce :: bool
  ctx_cancelled :: bool
  upstream_open :: bool
  upstream_closes :: nat
  reader_running :: bool
  watcher_running :: bool
  done_closed :: bool
  goroutineWG :: int
  upstream_sent :: "bytes list"
  client_sent :: "bytes list"

record session_options =
  so_ClientAddr :: "udp_addr option"
  so_BackendAddr :: "udp_addr option"
  so_PublicConn :: "conn option"
  so_MaxPacketSize :: int

section \<open>Activity and closing\<close>

definition touch :: "time \<Rightarrow> session \<Rightarrow> bool \<times> session" where
  "touch now s = (if closed s then (False, s) else (True, s\<lparr>lastActivity := UnixNano now\<rparr>))"

definition LastActivity :: "session \<Rightarrow> time" where
  "LastActivity s = time_Unix_nano (lastActivity s)"

definition closeSocket :: "session \<Rightarrow> session" where
  "closeSocket s = s\<lparr>ctx_cancelled := True, upstream_open := False,
                     upstream_closes := upstream_closes s + 1\<rparr>"

definition closeResources :: "session \<Rightarrow> session" where
  "closeResources s =
     (if closeOnce s then s else closeSocket (s\<lparr>closeOnce := True, closed := True\<rparr>))"

definition TryExpire :: "time \<Rightarrow> session \<Rightarrow> bool \<times> session" where
  "TryExpire cutoff s =
     (if closed s \<or> \<not> time_Before (LastActivity s) cutoff then (False, s)
      else let s1 = s\<lparr>closed := True\<rparr>
           in (True, if closeOnce s1 then s1 else closeSocket (s1\<lparr>closeOnce := True\<rparr>)))"

definition RecordActivity :: "time \<Rightarrow> session \<Rightarrow> goerror option \<times> session" where
  "RecordActivity now s =
     (case touch now s of (False, s1) \<Rightarrow> (Some ErrSessionClosed, s1) | (True, s1) \<Rightarrow> (None, s1))"

section \<open>Forwarding\<close>

text \<open>A write on a closed socket fails; on an open one its result is \<open>wr\<close>.\<close>

definition upstream_Write :: "goerror option \<Rightarrow> bytes \<Rightarrow> session \<Rightarrow> goerror option \<times> session" where
  "upstream_Write wr data s =
     (if \<not> upstream_open s then (Some ErrNetClosed, s)
      else case wr of Some e \<Rightarrow> (Some e, s)
                    | None \<Rightarrow> (None, s\<lparr>upstream_sent := upstream_sent s @ [data]\<rparr>))"

definition ForwardClient ::
    "time \<Rightarrow> goerror option \<Rightarrow> bytes \<Rightarrow> session \<Rightarrow> goerror option \<times> session" where
  "ForwardClient now wr data s =
     (case RecordActivity now s of
        (Some e, s1) \<Rightarrow> (Some e, s1)
      | (None, s1) \<Rightarrow>
          (case upstream_Write wr data s1 of
             (None, s2) \<Rightarrow> (None, s2)
           | (Some e, s2) \<Rightarrow>
               if closed s2 then (Some ErrSessionClosed, s2)
               else (Some (Wrap ''forward client packet'' e), closeResources s2)))"

section \<open>The two goroutines\<close>

text \<open>A read of the upstream socket: an error, or a datagram with its truncation flag.\<close>

datatype backend_read = ReadErr goerror | ReadMsg bytes bool

text \<open>The deferred calls of \<open>readBackend\<close>: close, close the done channel, leave the group.\<close>

definition readBackend_return :: "session \<Rightarrow> session" where
  "readBackend_return s =
     (let s1 = closeResources s
      in s1\<lparr>done_closed := True, reader_running := False, goroutineWG := goroutineWG s1 - 1\<rparr>)"

definition readBackend_step ::
    "backend_read \<Rightarrow> time \<Rightarrow> goerror option \<Rightarrow> session \<Rightarrow> session" where
  "readBackend_step r now wr s =
     (case r of
        ReadErr e \<Rightarrow> readBackend_return s
      | ReadMsg data trunc \<Rightarrow>
          if data = [] \<or> trunc then s
          else (case touch now s of
                  (False, s1) \<Rightarrow> readBackend_return s1
                | (True, s1) \<Rightarrow>
                    (case wr of
                       Some e \<Rightarrow> readBackend_return s1
                     | None \<Rightarrow> s1\<lparr>client_sent := client_sent s1 @ [data]\<rparr>)))"

fun readBackend :: "(backend_read \<times> time \<times> goerror option) list \<Rightarrow> session \<Rightarrow> session" where
  "readBackend [] s = s"
| "readBackend ((r, now, wr) # evs) s =
     (if reader_running s then readBackend evs (readBackend_step r now wr s) else s)"

text \<open>
  \<open>watchContext\<close>: the session's context is done when its own \<open>cancel\<close> was called or its
  parent is done. While neither that nor the done channel fires it blocks.
\<close>

definition watchContext :: "bool \<Rightarrow> session \<Rightarrow> session" where
  "watchContext parent_done s =
     (if \<not> watcher_running s then s
      else if parent_done \<or> ctx_cancelled s then
        (let s1 = closeResources s
         in s1\<lparr>watcher_running := False, goroutineWG := goroutineWG s1 - 1\<rparr>)
      else if done_closed s then s\<lparr>watcher_running := False, goroutineWG := goroutineWG s - 1\<rparr>
      else s)"

text \<open>
  \<open>goroutineWG.Wait()\<close> returns once both goroutines have: the reader's blocked read fails
  on the closed socket, the watcher sees the cancelled context.
\<close>

definition goroutineWG_Wait :: "session \<Rightarrow> session" where
  "goroutineWG_Wait s =
     watchContext False
       (if reader_running s then readBackend_step (ReadErr ErrNetClosed) time_zero None s else s)"

definition Close :: "session \<Rightarrow> goerror option \<times> session" where
  "Close s = (None, goroutineWG_Wait (closeResources s))"

section \<open>Construction\<close>

definition NewSession ::
    "(udp_addr \<Rightarrow> goerror option) \<Rightarrow> time \<Rightarrow> session_options \<Rightarrow> goerror + session" where
  "NewSession dial now opts =
     (case (so_ClientAddr opts, so_BackendAddr opts, so_PublicConn opts) of
        (Some client, Some backend, Some public) \<Rightarrow>
          if so_MaxPacketSize opts < 1 then Inl (ErrText ''max packet size must be positive'')
          else (case dial backend of
                  Some e \<Rightarrow> Inl (Wrap ''connect backend UDP socket'' e)
                | None \<Rightarrow>
                    let s = \<lparr>clientAddr = client, publicConn = public,
                             maxPacket = so_MaxPacketSize opts, lastActivity = 0,
                             closed = False, closeOnce = False, ctx_cancelled = False,
                             upstream_open = True, upstream_closes = 0,
                             reader_running = False, watcher_running = False,
                             done_closed = False, goroutineWG = 0,
                             upstream_sent = [], client_sent = []\<rparr>;
                        s1 = snd (touch now s)
                    in Inr (s1\<lparr>goroutineWG := 2, reader_running := True,
                               watcher_running := True\<rparr>))
      | _ \<Rightarrow> Inl (ErrText ''client, backend, and public UDP addresses are required''))"

lemmas [session_defs] = touch_def LastActivity_def closeSocket_def closeResources_def
  TryExpire_def RecordActivity_def upstream_Write_def ForwardClient_def
  readBackend_return_def readBackend_step_def watchContext_def goroutineWG_Wait_def
  Close_def

section \<open>Runs of a session\<close>

text \<open>
  Everything that can happen to a session after \<open>NewSession\<close>, in any order: calls from
  the proxy and the store, datagrams and errors from the backend, the end of the parent
  context. The reader acts only while it runs, and a closed socket yields only errors.
\<close>

datatype session_event =
    CallRecordActivity time
  | CallForwardClient time "goerror option" bytes
  | CallTryExpire time
  | CallClose
  | BackendRead backend_read time "goerror option"
  | ContextWatch bool

fun session_do :: "session_event \<Rightarrow> session \<Rightarrow> session" where
  "session_do (CallRecordActivity now) s = snd (RecordActivity now s)"
| "session_do (CallForwardClient now wr data) s = snd (ForwardClient now wr data s)"
| "session_do (CallTryExpire cutoff) s = snd (TryExpire cutoff s)"
| "session_do CallClose s = snd (Close s)"
| "session_do (BackendRead r now wr) s = readBackend_step r now wr s"
| "session_do (ContextWatch parent_done) s = watchContext parent_done s"

fun session_enabled :: "session_event \<Rightarrow> session \<Rightarrow> bool" where
  "session_enabled (BackendRead r now wr) s \<longleftrightarrow>
     reader_running s \<and> (upstream_open s \<or> (\<exists>e. r = ReadErr e))"
| "session_enabled ev s \<longleftrightarrow> True"

inductive session_step :: "session \<Rightarrow> session_event \<Rightarrow> session \<Rightarrow> bool" where
  "session_enabled ev s \<Longrightarrow> session_step s ev (session_do ev s)"

inductive_simps session_step_iff: "session_step s ev t"

definition session_init :: "session \<Rightarrow> bool" where
  "session_init s \<longleftrightarrow> (\<exists>dial now opts. NewSession dial now opts = Inr s)"

definition sess_inv :: "session \<Rightarrow> bool" where
  "sess_inv s \<longleftrightarrow>
     (closed s \<longleftrightarrow> closeOnce s) \<and> (upstream_open s \<longleftrightarrow> \<not> closed s)
   \<and> upstream_closes s = of_bool (closed s) \<and> (ctx_cancelled s \<longleftrightarrow> closed s)
   \<and> (done_closed s \<longleftrightarrow> \<not> reader_running s)
   \<and> (\<not> reader_running s \<or> \<not> watcher_running s \<longrightarrow> closed s)
   \<and> goroutineWG s = of_bool (reader_running s) + of_bool (watcher_running s)"

text \<open>What a successful construction delivers.\<close>

lemma NewSession_Inr:
  "NewSession dial now opts = Inr s \<longleftrightarrow>
     (\<exists>client backend public. so_ClientAddr opts = Some client \<and> so_BackendAddr opts = Some backend
        \<and> so_PublicConn opts = Some public \<and> 1 \<le> so_MaxPacketSize opts \<and> dial backend = None
        \<and> s = \<lparr>clientAddr = client, publicConn = public, maxPacket = so_MaxPacketSize opts,
               lastActivity = UnixNano now, closed = False, closeOnce = False,
               ctx_cancelled = False, upstream_open = True, upstream_closes = 0,
               reader_running = True, watcher_running = True, done_closed = False,
               goroutineWG = 2, upstream_sent = [], client_sent = []\<rparr>)"
  by (cases "so_ClientAddr opts"; cases "so_BackendAddr opts"; cases "so_PublicConn opts")
    (auto simp: NewSession_def touch_def Let_def split: option.split)

lemma sess_inv_init: "session_init s \<Longrightarrow> sess_inv s"
  by (auto simp: session_init_def NewSession_Inr sess_inv_def)

lemma sess_inv_do:
  assumes "sess_inv s" "session_enabled ev s"
  shows "sess_inv (session_do ev s)"
  using assms by (cases ev) (auto simp: sess_inv_def session_defs Let_def split: option.splits
      backend_read.splits prod.splits bool.splits)

interpretation sess: inductive_invariant session_init session_step sess_inv
  by unfold_locales (auto simp: session_step_iff intro: sess_inv_init sess_inv_do)

section \<open>Properties\<close>

lemma sess_invD:
  assumes "sess_inv s"
  shows "closeOnce s = closed s" "upstream_open s = (\<not> closed s)"
    "upstream_closes s = of_bool (closed s)" "ctx_cancelled s = closed s"
    "done_closed s = (\<not> reader_running s)"
    "goroutineWG s = of_bool (reader_running s) + of_bool (watcher_running s)"
  using assms by (auto simp: sess_inv_def)

lemma closed_touch: "closed s \<Longrightarrow> touch now s = (False, s)"
  by (simp add: touch_def)

lemma closed_RecordActivity: "closed s \<Longrightarrow> RecordActivity now s = (Some ErrSessionClosed, s)"
  by (simp add: RecordActivity_def closed_touch)

lemma closed_ForwardClient: "closed s \<Longrightarrow> ForwardClient now wr d s = (Some ErrSessionClosed, s)"
  by (simp add: ForwardClient_def closed_RecordActivity)

lemma open_RecordActivity:
  "\<not> closed s \<Longrightarrow> RecordActivity now s = (None, s\<lparr>lastActivity := UnixNano now\<rparr>)"
  by (simp add: RecordActivity_def touch_def)

lemmas closed_simps = closed_touch closed_RecordActivity closed_ForwardClient

lemma closed_do:
  assumes "closed s" "sess_inv s" "session_enabled ev s"
  shows "closed (session_do ev s) \<and> upstream_sent (session_do ev s) = upstream_sent s
       \<and> client_sent (session_do ev s) = client_sent s"
  using assms by (cases ev) (auto simp: closed_simps sess_inv_def session_defs Let_def
      split: backend_read.splits)

lemma closed_steps:
  "steps session_step s evs t \<Longrightarrow> closed s \<Longrightarrow> sess_inv s \<Longrightarrow>
     closed t \<and> upstream_sent t = upstream_sent s \<and> client_sent t = client_sent s \<and> sess_inv t"
  by (induction rule: steps.induct) (auto simp: session_step_iff closed_do sess_inv_do)

lemma sess_inv_Close: "sess_inv s \<Longrightarrow> sess_inv (snd (Close s))"
  using sess_inv_do [of s CallClose] by simp

lemma Close_all:
  assumes "sess_inv s"
  shows "fst (Close s) = None" "closed (snd (Close s))" "goroutineWG (snd (Close s)) = 0"
    "done_closed (snd (Close s))" "upstream_closes (snd (Close s)) = 1"
    "upstream_sent (snd (Close s)) = upstream_sent s" "client_sent (snd (Close s)) = client_sent s"
  using assms by (auto simp: sess_inv_def session_defs Let_def)


lemma session_reach_do:
  "reach session_init session_step s \<Longrightarrow> session_enabled ev s \<Longrightarrow>
     reach session_init session_step (session_do ev s)"
  by (blast intro: reach_step session_step.intros)

text \<open>A session to evaluate the operations on.\<close>

definition ex_options :: session_options where
  "ex_options = \<lparr>so_ClientAddr = Some ''192.0.2.7:40000'', so_BackendAddr = Some ''192.0.2.10:8211'',
                 so_PublicConn = Some 0, so_MaxPacketSize = 1500\<rparr>"

definition ex_session :: session where
  "ex_session = (case NewSession (\<lambda>_. None) unix_epoch ex_options of Inr s \<Rightarrow> s)"

lemma ex_session_init: "session_init ex_session"
  unfolding session_init_def ex_session_def
  by (rule exI [of _ "\<lambda>_. None"], rule exI [of _ unix_epoch], rule exI [of _ ex_options])
    (simp add: NewSession_def ex_options_def)

lemma ex_session_reach: "reach session_init session_step ex_session"
  by (rule reach_init [of session_init, OF ex_session_init])

lemma ex_session_open: "\<not> closed ex_session" "reader_running ex_session" "sess_inv ex_session"
  by (simp_all add: ex_session_def NewSession_def ex_options_def touch_def Let_def sess_inv_def)



text \<open>
  Closing is terminal and idempotent: from a closed session no sequence of events
  reopens it, closes the socket again or sends another datagram in either direction, and
  every later call of \<open>RecordActivity\<close> or \<open>ForwardClient\<close> answers \<open>ErrSessionClosed\<close>.
\<close>

theorem session_closed_terminal:
  assumes "reach session_init session_step s" "closed s" "steps session_step s evs t"
  shows "closed t \<and> upstream_closes t = 1 \<and> upstream_sent t = upstream_sent s
       \<and> client_sent t = client_sent s \<and> fst (RecordActivity now t) = Some ErrSessionClosed
       \<and> ForwardClient now wr data t = (Some ErrSessionClosed, t)"
proof -
  have "sess_inv s" using assms(1) by (rule sess.inv_reach)
  from closed_steps [OF assms(3,2) this] show ?thesis
    by (auto simp: sess_invD closed_simps)
qed

theorem session_closed_terminal_witness:
  "closed (session_do (CallForwardClient 5 None [1, 2]) (session_do CallClose ex_session))
   \<and> upstream_closes (session_do (CallForwardClient 5 None [1, 2]) (session_do CallClose ex_session)) = 1"
proof -
  let ?s = "session_do CallClose ex_session"
  have r: "reach session_init session_step ?s"
    by (intro session_reach_do ex_session_reach) simp_all
  have c: "closed ?s" using Close_all(2) [OF ex_session_open(3)] by simp
  have st: "steps session_step ?s [CallForwardClient 5 None [1, 2]] (session_do (CallForwardClient 5 None [1, 2]) ?s)"
    by (auto simp: session_step_iff)
  show ?thesis using session_closed_terminal [OF r c st] by simp
qed



text \<open>
  Idle expiry is exact: after activity recorded at an instant an \<open>int64\<close> of Unix
  nanoseconds can hold, \<open>TryExpire\<close> succeeds if and only if that instant lies strictly
  before the cutoff; on success the session is closed with its socket, otherwise it is
  unchanged.
\<close>

theorem TryExpire_exact:
  assumes "sess_inv s" "nano_range now" "touch now s = (True, s1)"
  shows "(fst (TryExpire cutoff s1) \<longleftrightarrow> now < cutoff)
       \<and> (now < cutoff \<longrightarrow> closed (snd (TryExpire cutoff s1)) \<and> \<not> upstream_open (snd (TryExpire cutoff s1)))
       \<and> (\<not> now < cutoff \<longrightarrow> snd (TryExpire cutoff s1) = s1)"
proof -
  have s1: "\<not> closed s" "s1 = s\<lparr>lastActivity := UnixNano now\<rparr>"
    using assms(3) by (auto simp: touch_def split: if_splits)
  have "LastActivity s1 = now"
    using assms(2) by (simp add: LastActivity_def s1(2) UnixNano_roundtrip)
  then show ?thesis
    using s1 assms(1) by (auto simp: TryExpire_def time_Before_def Let_def closeSocket_def sess_inv_def)
qed

theorem TryExpire_exact_witness:
  "fst (TryExpire (unix_epoch + 8) (snd (touch (unix_epoch + 7) ex_session)))
   \<and> \<not> fst (TryExpire (unix_epoch + 7) (snd (touch (unix_epoch + 7) ex_session)))"
proof -
  have t: "touch (unix_epoch + 7) ex_session = (True, snd (touch (unix_epoch + 7) ex_session))"
    by (simp add: touch_def ex_session_open)
  have n: "nano_range (unix_epoch + 7)" by (simp add: nano_range_def go_time)
  show ?thesis
    using TryExpire_exact [OF ex_session_open(3) n t, of "unix_epoch + 8"]
      TryExpire_exact [OF ex_session_open(3) n t, of "unix_epoch + 7"] by simp
qed

section \<open>What the reader delivers\<close>

text \<open>
  The specification of \<open>readBackend\<close>: it relays the non-empty, untruncated datagrams of the
  longest prefix of reads in which no read and no relayed write fails.
\<close>

fun relay_ok :: "backend_read \<times> time \<times> goerror option \<Rightarrow> bool" where
  "relay_ok (ReadErr e, now, wr) = False"
| "relay_ok (ReadMsg data trunc, now, wr) = (data = [] \<or> trunc \<or> wr = None)"

fun relayed :: "backend_read \<times> time \<times> goerror option \<Rightarrow> bytes list" where
  "relayed (ReadErr e, now, wr) = []"
| "relayed (ReadMsg data trunc, now, wr) = (if data = [] \<or> trunc then [] else [data])"

lemma readBackend_stopped: "\<not> reader_running s \<Longrightarrow> readBackend evs s = s"
  by (cases evs) auto

lemma readBackend_step_ok:
  assumes "relay_ok (r, now, wr)" "\<not> closed s" "reader_running s"
  shows "client_sent (readBackend_step r now wr s) = client_sent s @ relayed (r, now, wr)
       \<and> \<not> closed (readBackend_step r now wr s) \<and> reader_running (readBackend_step r now wr s)"
  using assms by (cases r) (auto simp: readBackend_step_def touch_def)

lemma readBackend_step_fail:
  assumes "\<not> relay_ok (r, now, wr)" "\<not> closed s" "sess_inv s"
  shows "client_sent (readBackend_step r now wr s) = client_sent s
       \<and> closed (readBackend_step r now wr s) \<and> \<not> reader_running (readBackend_step r now wr s)"
  using assms by (cases r) (auto simp: session_defs Let_def sess_inv_def)

text \<open>
  C34: The reader goroutine relays to the client exactly the non-empty, untruncated backend
  datagrams, in order, up to the first failed read or write; it keeps running if and only if
  none failed, and otherwise leaves the session closed.
\<close>

theorem readBackend_relays:
  assumes "sess_inv s" "reader_running s" "\<not> closed s"
  shows "client_sent (readBackend evs s)
           = client_sent s @ concat (map relayed (takeWhile relay_ok evs))
       \<and> (reader_running (readBackend evs s) \<longleftrightarrow> list_all relay_ok evs)
       \<and> (closed (readBackend evs s) \<longleftrightarrow> \<not> list_all relay_ok evs)"
  using assms
proof (induction evs arbitrary: s)
  case Nil
  then show ?case by simp
next
  case (Cons ev evs)
  obtain r now wr where ev: "ev = (r, now, wr)" by (cases ev)
  let ?t = "readBackend_step r now wr s"
  have en: "session_enabled (BackendRead r now wr) s"
    using Cons.prems by (simp add: sess_inv_def)
  show ?case
  proof (cases "relay_ok ev")
    case True
    with Cons.IH [of ?t] Cons.prems sess_inv_do [OF Cons.prems(1) en] show ?thesis
      by (auto simp: ev readBackend_step_ok)
  next
    case False
    with Cons.prems readBackend_step_fail [of r now wr s] show ?thesis
      by (auto simp: ev readBackend_stopped)
  qed
qed

theorem readBackend_relays_witness:
  "client_sent (readBackend [(ReadMsg [1] False, 0, None), (ReadMsg [] False, 0, None),
       (ReadMsg [2, 3] False, 0, None), (ReadErr EOF, 0, None), (ReadMsg [4] False, 0, None)] ex_session)
     = [[1], [2, 3]]"
  using readBackend_relays [OF ex_session_open(3,2,1), of "[(ReadMsg [1] False, 0, None), (ReadMsg [] False, 0, None),
       (ReadMsg [2, 3] False, 0, None), (ReadErr EOF, 0, None), (ReadMsg [4] False, 0, None)]"]
  by (simp add: ex_session_def NewSession_def ex_options_def touch_def Let_def)

end
