(* ===== verification/Store.thy ===== *)
theory Store
  imports Session
begin

text \<open>
  pkg/session/store.go: the bounded map from a client's address to its session. A
  \<open>*Session\<close> is an address \<open>sid\<close> into a heap of sessions, because the store and the
  proxy's queues alias the same session and \<open>Remove\<close> compares pointers. Every method is one
  critical section of \<open>Store.mu\<close>; the sessions it closes after unlocking are no longer
  reachable through the store.
\<close>

type_synonym sid = nat
type_synonym heap = "sid \<Rightarrow> session"

record store =
  store_max :: int
  sessions :: "(string, sid) gomap"

definition NewStore :: "int \<Rightarrow> goerror + store" where
  "NewStore max' =
     (if max' < 1 then Inl (ErrText ''session capacity must be positive'')
      else Inr \<lparr>store_max = max', sessions = []\<rparr>)"

definition GetOrCreate ::
    "string \<Rightarrow> (heap \<Rightarrow> (sid option \<times> goerror option) \<times> heap) \<Rightarrow> store \<Rightarrow> heap \<Rightarrow>
     (sid option \<times> bool \<times> int \<times> goerror option) \<times> store \<times> heap" where
  "GetOrCreate key create st h =
     (case map_of (sessions st) key of
        Some existing \<Rightarrow> ((Some existing, False, gm_len (sessions st), None), st, h)
      | None \<Rightarrow>
          if gm_len (sessions st) \<ge> store_max st then
            ((None, False, gm_len (sessions st), Some ErrSessionCapacity), st, h)
          else
            (case create h of
               ((created, Some err), h1) \<Rightarrow> ((None, False, gm_len (sessions st), Some err), st, h1)
             | ((None, None), h1) \<Rightarrow>
                 ((None, False, gm_len (sessions st),
                   Some (ErrText ''session factory returned nil'')), st, h1)
             | ((Some created, None), h1) \<Rightarrow>
                 (let st1 = st\<lparr>sessions := AList.update key created (sessions st)\<rparr>
                  in ((Some created, True, gm_len (sessions st1), None), st1, h1))))"

definition Get :: "string \<Rightarrow> store \<Rightarrow> sid option" where
  "Get key st = map_of (sessions st) key"

definition Len :: "store \<Rightarrow> int" where
  "Len st = gm_len (sessions st)"

definition Remove ::
    "string \<Rightarrow> sid \<Rightarrow> store \<Rightarrow> heap \<Rightarrow> (bool \<times> int \<times> goerror option) \<times> store \<times> heap" where
  "Remove key expected st h =
     (case map_of (sessions st) key of
        None \<Rightarrow> ((False, gm_len (sessions st), None), st, h)
      | Some current \<Rightarrow>
          if current \<noteq> expected then ((False, gm_len (sessions st), None), st, h)
          else
            (let st1 = st\<lparr>sessions := AList.delete key (sessions st)\<rparr>;
                 (err, s) = Close (h current)
             in ((True, gm_len (sessions st1), err), st1, h(current := s))))"

text \<open>
  The loop of \<open>ExpireIdle\<close> over the map's entries: \<open>TryExpire\<close> each, delete and collect
  the expired ones. Then \<open>close_each\<close> is the loop that closes the collected sessions and
  joins their errors.
\<close>

fun expire_scan ::
    "time \<Rightarrow> (string, sid) gomap \<Rightarrow> (string, sid) gomap \<Rightarrow> heap \<Rightarrow>
     (string, sid) gomap \<times> sid list \<times> heap" where
  "expire_scan cutoff [] m h = (m, [], h)"
| "expire_scan cutoff ((key, value) # rest) m h =
     (case TryExpire cutoff (h value) of
        (True, s) \<Rightarrow>
          (let (m1, toClose, h1) = expire_scan cutoff rest (AList.delete key m) (h(value := s))
           in (m1, value # toClose, h1))
      | (False, s) \<Rightarrow> expire_scan cutoff rest m (h(value := s)))"

fun close_each :: "sid list \<Rightarrow> goerror option \<Rightarrow> heap \<Rightarrow> goerror option \<times> heap" where
  "close_each [] result h = (result, h)"
| "close_each (value # rest) result h =
     (let (err, s) = Close (h value)
      in close_each rest (errors_Join result err) (h(value := s)))"

definition ExpireIdle ::
    "time \<Rightarrow> store \<Rightarrow> heap \<Rightarrow> (int \<times> int \<times> goerror option) \<times> store \<times> heap" where
  "ExpireIdle cutoff st h =
     (let (m, toClose, h1) = expire_scan cutoff (sessions st) (sessions st) h;
          remaining = gm_len m;
          (result, h2) = close_each toClose None h1
      in ((int (length toClose), remaining, result), st\<lparr>sessions := m\<rparr>, h2))"

definition CloseAll :: "store \<Rightarrow> heap \<Rightarrow> goerror option \<times> store \<times> heap" where
  "CloseAll st h =
     (let toClose = map snd (sessions st);
          (result, h1) = close_each toClose None h
      in (result, st\<lparr>sessions := []\<rparr>, h1))"

section \<open>Invariant and the loops\<close>

text \<open>
  A well-formed store: one entry per key, no session under two keys, within capacity; and
  the sessions it holds are well-formed.
\<close>

definition store_inv :: "store \<Rightarrow> bool" where
  "store_inv st \<longleftrightarrow> gm_wf (sessions st) \<and> distinct (map snd (sessions st))
     \<and> 1 \<le> store_max st \<and> gm_len (sessions st) \<le> store_max st"

definition heap_inv :: "heap \<Rightarrow> bool" where
  "heap_inv h \<longleftrightarrow> (\<forall>v. sess_inv (h v))"

lemma heap_invD: "heap_inv h \<Longrightarrow> sess_inv (h v)"
  by (simp add: heap_inv_def)

lemma heap_inv_upd: "heap_inv h \<Longrightarrow> sess_inv s \<Longrightarrow> heap_inv (h(v := s))"
  by (simp add: heap_inv_def)

lemma gm_len_filter_le: "gm_len (filter P m) \<le> gm_len m"
  by (simp add: gm_len_def)

lemma distinct_snd_filter: "distinct (map snd m) \<Longrightarrow> distinct (map snd (filter P m))"
  by (rule distinct_map_filter)

lemma store_inv_filter:
  "store_inv st \<Longrightarrow> store_inv (st\<lparr>sessions := filter P (sessions st)\<rparr>)"
  using gm_len_filter_le [of P "sessions st"]
  by (auto simp: store_inv_def distinct_snd_filter)

lemma delete_filter: "AList.delete k m = filter (\<lambda>e. fst e \<noteq> k) m"
  by (simp add: AList.delete_eq case_prod_beta' eq_commute)

lemma store_inv_delete: "store_inv st \<Longrightarrow> store_inv (st\<lparr>sessions := AList.delete k (sessions st)\<rparr>)"
  by (simp add: delete_filter store_inv_filter)

lemma close_each_result:
  "close_each vs None h = (None, snd (close_each vs None h))"
  by (induction vs arbitrary: h) (auto simp: Close_def)

lemma close_each_heap:
  "distinct vs \<Longrightarrow>
     snd (close_each vs r h) v = (if v \<in> set vs then snd (Close (h v)) else h v)"
  by (induction vs arbitrary: r h) (auto simp: Let_def split: prod.splits)

definition idle_before :: "time \<Rightarrow> session \<Rightarrow> bool" where
  "idle_before cutoff s \<longleftrightarrow> \<not> closed s \<and> LastActivity s < cutoff"

lemma TryExpire_idle: "TryExpire cutoff s =
   (if idle_before cutoff s then (True, snd (TryExpire cutoff s)) else (False, s))"
  by (simp add: TryExpire_def idle_before_def time_Before_def Let_def)

lemma sess_inv_TryExpire: "sess_inv s \<Longrightarrow> sess_inv (snd (TryExpire cutoff s))"
  using sess_inv_do [of s "CallTryExpire cutoff"] by simp

lemma expire_scan_spec:
  assumes "distinct (map fst es)" "distinct (map snd es)"
  shows "expire_scan cutoff es m h =
    (filter (\<lambda>e. \<not> (\<exists>v. (fst e, v) \<in> set es \<and> idle_before cutoff (h v))) m,
     filter (\<lambda>v. idle_before cutoff (h v)) (map snd es),
     \<lambda>v. if v \<in> snd ` set es \<and> idle_before cutoff (h v) then snd (TryExpire cutoff (h v)) else h v)"
  using assms
proof (induction es arbitrary: m h)
  case Nil
  then show ?case by simp
next
  case (Cons e es)
  obtain k x where e: "e = (k, x)" by (cases e)
  have x: "x \<notin> snd ` set es" "\<And>a. (a, x) \<notin> set es" and k: "\<And>v. (k, v) \<notin> set es"
    using Cons.prems e by (auto simp: image_iff)
  show ?case
  proof (cases "idle_before cutoff (h x)")
    case True
    let ?s = "snd (TryExpire cutoff (h x))"
    have unf: "expire_scan cutoff (e # es) m h =
      (let (m1, c, h1) = expire_scan cutoff es (AList.delete k m) (h(x := ?s)) in (m1, x # c, h1))"
      using True by (subst e, subst expire_scan.simps, subst TryExpire_idle) simp
    have b: "filter (\<lambda>v. idle_before cutoff ((h(x := ?s)) v)) (map snd es)
        = filter (\<lambda>v. idle_before cutoff (h v)) (map snd es)"
      using x by (intro filter_cong) auto
    have a: "filter (\<lambda>e. \<not> (\<exists>v. (fst e, v) \<in> set es \<and> idle_before cutoff ((h(x := ?s)) v)))
          (AList.delete k m)
        = filter (\<lambda>e'. \<not> (\<exists>v. (fst e', v) \<in> set (e # es) \<and> idle_before cutoff (h v))) m"
      using True x k unfolding delete_filter filter_filter
      by (intro filter_cong) (auto simp: e, metis)
    have c: "(\<lambda>v. if v \<in> snd ` set es \<and> idle_before cutoff ((h(x := ?s)) v)
                then snd (TryExpire cutoff ((h(x := ?s)) v)) else (h(x := ?s)) v)
        = (\<lambda>v. if v \<in> snd ` set (e # es) \<and> idle_before cutoff (h v)
                then snd (TryExpire cutoff (h v)) else h v)"
      using True x by (auto simp: e fun_eq_iff)
    have IH: "expire_scan cutoff es (AList.delete k m) (h(x := ?s)) =
      (filter (\<lambda>e'. \<not> (\<exists>v. (fst e', v) \<in> set (e # es) \<and> idle_before cutoff (h v))) m,
       filter (\<lambda>v. idle_before cutoff (h v)) (map snd es),
       \<lambda>v. if v \<in> snd ` set (e # es) \<and> idle_before cutoff (h v)
           then snd (TryExpire cutoff (h v)) else h v)"
      using Cons.prems by (subst Cons.IH) (simp_all only: a b c distinct.simps list.map)
    show ?thesis unfolding unf IH using True by (simp add: e)
  next
    case False
    then have "expire_scan cutoff (e # es) m h = expire_scan cutoff es m h"
      by (subst e, subst expire_scan.simps, subst TryExpire_idle) simp
    with Cons False x show ?thesis
      by (auto simp: e fun_eq_iff intro!: filter_cong)
  qed
qed

lemma same_key: "gm_wf m \<Longrightarrow> (k, v) \<in> set m \<Longrightarrow> (k, w) \<in> set m \<Longrightarrow> v = w"
  by (auto simp: gm_wf_def dest: eq_key_imp_eq_value)

text \<open>What one sweep does: exactly the idle sessions leave the store, closed.\<close>

lemma ExpireIdle_spec:
  fixes st :: store and h :: heap and cutoff :: time
  assumes "store_inv st"
  defines "gone \<equiv> \<lambda>v. v \<in> snd ` set (sessions st) \<and> idle_before cutoff (h v)"
  shows "ExpireIdle cutoff st h =
    ((int (length (filter (\<lambda>e. idle_before cutoff (h (snd e))) (sessions st))),
      gm_len (filter (\<lambda>e. \<not> idle_before cutoff (h (snd e))) (sessions st)), None),
     st\<lparr>sessions := filter (\<lambda>e. \<not> idle_before cutoff (h (snd e))) (sessions st)\<rparr>,
     \<lambda>v. if gone v then snd (Close (snd (TryExpire cutoff (h v)))) else h v)"
proof -
  let ?m = "sessions st"
  let ?c = "filter (\<lambda>v. idle_before cutoff (h v)) (map snd ?m)"
  let ?h1 = "\<lambda>v. if gone v then snd (TryExpire cutoff (h v)) else h v"
  have wf: "gm_wf ?m" "distinct (map fst ?m)" "distinct (map snd ?m)"
    using assms(1) by (auto simp: store_inv_def gm_wf_def)
  have keep: "filter (\<lambda>e. \<not> (\<exists>v. (fst e, v) \<in> set ?m \<and> idle_before cutoff (h v))) ?m
      = filter (\<lambda>e. \<not> idle_before cutoff (h (snd e))) ?m"
  proof (rule filter_cong)
    fix e assume "e \<in> set ?m"
    then have "(fst e, v) \<in> set ?m \<longleftrightarrow> v = snd e" for v
      using same_key [OF wf(1)] by (metis prod.collapse)
    then show "(\<not> (\<exists>v. (fst e, v) \<in> set ?m \<and> idle_before cutoff (h v)))
        = (\<not> idle_before cutoff (h (snd e)))" by simp
  qed simp
  have scan: "expire_scan cutoff ?m ?m h
      = (filter (\<lambda>e. \<not> idle_before cutoff (h (snd e))) ?m, ?c, ?h1)"
    unfolding expire_scan_spec [OF wf(2,3)] keep gone_def by simp
  have set_c: "v \<in> set ?c \<longleftrightarrow> gone v" for v
    by (auto simp: gone_def)
  have "close_each ?c None ?h1
      = (None, \<lambda>v. if gone v then snd (Close (snd (TryExpire cutoff (h v)))) else h v)"
    by (subst close_each_result, rule prod_eqI)
      (simp_all add: close_each_heap [OF distinct_filter [OF wf(3)]] fun_eq_iff set_c del: set_filter)
  moreover have "length ?c = length (filter (\<lambda>e. idle_before cutoff (h (snd e))) ?m)"
    by (simp add: filter_map comp_def)
  ultimately show ?thesis by (simp add: ExpireIdle_def scan)
qed

lemma CloseAll_spec:
  assumes "store_inv st"
  shows "CloseAll st h = (None, st\<lparr>sessions := []\<rparr>,
    \<lambda>v. if v \<in> snd ` set (sessions st) then snd (Close (h v)) else h v)"
proof -
  have "distinct (map snd (sessions st))" using assms by (simp add: store_inv_def)
  then have "snd (close_each (map snd (sessions st)) None h)
      = (\<lambda>v. if v \<in> snd ` set (sessions st) then snd (Close (h v)) else h v)"
    by (simp add: close_each_heap fun_eq_iff)
  with close_each_result [of "map snd (sessions st)" h] show ?thesis
    by (simp add: CloseAll_def)
qed

lemma Remove_spec:
  assumes "store_inv st"
  shows "Remove key v st h =
    (if map_of (sessions st) key = Some v
     then ((True, gm_len (AList.delete key (sessions st)), None),
           st\<lparr>sessions := AList.delete key (sessions st)\<rparr>, h(v := snd (Close (h v))))
     else ((False, gm_len (sessions st), None), st, h))"
  by (auto simp: Remove_def Close_def Let_def split: option.splits)

lemma GetOrCreate_cases:
  assumes "GetOrCreate key create st h = ((r, created, n, err), st1, h1)"
  obtains (existing) v where "Get key st = Some v" "r = Some v" "\<not> created" "err = None"
      "n = Len st" "st1 = st" "h1 = h"
    | (full) "Get key st = None" "store_max st \<le> Len st" "r = None" "\<not> created"
      "err = Some ErrSessionCapacity" "n = Len st" "st1 = st" "h1 = h"
    | (failed) e where "Get key st = None" "Len st < store_max st" "r = None" "\<not> created"
      "err = Some e" "n = Len st" "st1 = st" "h1 = snd (create h)"
    | (new) v where "Get key st = None" "Len st < store_max st" "create h = ((Some v, None), h1)"
      "r = Some v" "created" "err = None" "st1 = st\<lparr>sessions := AList.update key v (sessions st)\<rparr>"
      "n = Len st1"
proof (cases "map_of (sessions st) key")
  case (Some v)
  show ?thesis by (rule existing [of v]) (use assms Some in \<open>auto simp: GetOrCreate_def Get_def Len_def\<close>)
next
  case none: None
  show ?thesis
  proof (cases "store_max st \<le> Len st")
    case True
    show ?thesis by (rule full) (use assms none True in \<open>auto simp: GetOrCreate_def Get_def Len_def\<close>)
  next
    case False
    obtain c e h2 where c: "create h = ((c, e), h2)" by (metis prod.collapse)
    show ?thesis
    proof (cases "\<exists>v. c = Some v \<and> e = None")
      case True
      then obtain v where v: "c = Some v" "e = None" by blast
      show ?thesis by (rule new [of v])
        (use assms none False c v in \<open>auto simp: GetOrCreate_def Get_def Len_def Let_def\<close>)
    next
      case no: False
      then obtain x where "err = Some x"
        using assms none False c by (cases e; cases c) (auto simp: GetOrCreate_def Len_def)
      then show ?thesis by (rule_tac failed [of x])
        (use assms none False c no in \<open>cases e; cases c; auto simp: GetOrCreate_def Get_def Len_def\<close>)+
    qed
  qed
qed

lemma Get_stored: "Get k st = Some v \<Longrightarrow> v \<in> snd ` set (sessions st)"
  by (force simp: Get_def dest: map_of_SomeD)

section \<open>The contract the proxy relies on\<close>

text \<open>
  Clients of a store see a partial map from addresses to sessions and its size. The laws:
  sizes are those of the map, a removal takes out the expected session or nothing, a sweep
  takes out the idle sessions, \<open>close_all\<close> everything; whatever leaves the store is closed.
\<close>

locale session_store =
  fixes get :: "string \<Rightarrow> 'st \<Rightarrow> sid option"
    and len :: "'st \<Rightarrow> int"
    and remove :: "string \<Rightarrow> sid \<Rightarrow> 'st \<Rightarrow> heap \<Rightarrow> (bool \<times> int \<times> goerror option) \<times> 'st \<times> heap"
    and expire :: "time \<Rightarrow> 'st \<Rightarrow> heap \<Rightarrow> (int \<times> int \<times> goerror option) \<times> 'st \<times> heap"
    and close_all :: "'st \<Rightarrow> heap \<Rightarrow> goerror option \<times> 'st \<times> heap"
    and ok :: "'st \<Rightarrow> heap \<Rightarrow> bool"
  assumes len_zero: "ok st h \<Longrightarrow> len st = 0 \<longleftrightarrow> (\<forall>k. get k st = None)"
    and remove_law: "ok st h \<Longrightarrow> remove k v st h = ((removed, n, err), st1, h1) \<Longrightarrow>
      ok st1 h1 \<and> err = None \<and> n = len st1 \<and> (removed \<longleftrightarrow> get k st = Some v)
      \<and> (removed \<longrightarrow> closed (h1 v))
      \<and> (\<forall>k'. get k' st1 = (if removed \<and> k' = k then None else get k' st))"
    and expire_law: "ok st h \<Longrightarrow> expire cutoff st h = ((gone, n, err), st1, h1) \<Longrightarrow>
      ok st1 h1 \<and> err = None \<and> n = len st1 \<and> gone = len st - len st1
      \<and> (\<forall>k. get k st1 = (case get k st of None \<Rightarrow> None
              | Some v \<Rightarrow> if idle_before cutoff (h v) then None else Some v))
      \<and> (\<forall>k v. get k st = Some v \<and> idle_before cutoff (h v) \<longrightarrow> closed (h1 v))"
    and close_all_law: "ok st h \<Longrightarrow> close_all st h = (err, st1, h1) \<Longrightarrow>
      ok st1 h1 \<and> err = None \<and> (\<forall>k. get k st1 = None)
      \<and> (\<forall>k v. get k st = Some v \<longrightarrow> closed (h1 v) \<and> goroutineWG (h1 v) = 0)"
begin

lemma remove_once:
  assumes "ok st h" "remove k v st h = ((removed, n, err), st1, h1)"
    "remove k v st1 h1 = ((again, n', err'), st2, h2)"
  shows "\<not> again"
  using assms remove_law [OF assms(1,2)] remove_law [OF _ assms(3)] by auto

lemma remove_last:
  assumes "ok st h" "remove k v st h = ((removed, 0, err), st1, h1)"
  shows "get k' st1 = None"
  using assms remove_law [OF assms] len_zero [of st1 h1] by simp

lemma expire_all:
  assumes "ok st h" "expire cutoff st h = ((gone, 0, err), st1, h1)" "get k st = Some v"
  shows "closed (h1 v)"
proof -
  note law = expire_law [OF assms(1,2)]
  then have none: "get k st1 = None" using len_zero [of st1 h1] by simp
  from law have "get k st1 = (case get k st of None \<Rightarrow> None
      | Some v \<Rightarrow> if idle_before cutoff (h v) then None else Some v)" by blast
  with none assms(3) have "idle_before cutoff (h v)" by (simp split: if_splits)
  then show ?thesis using law assms(3) by blast
qed

end

definition store_ok :: "store \<Rightarrow> heap \<Rightarrow> bool" where
  "store_ok st h \<longleftrightarrow> store_inv st \<and> heap_inv h"

lemma heap_inv_ExpireIdle:
  "store_ok st h \<Longrightarrow> ExpireIdle cutoff st h = (r, st1, h1) \<Longrightarrow> heap_inv h1"
  by (auto simp: store_ok_def ExpireIdle_spec heap_inv_def sess_inv_Close sess_inv_TryExpire)

lemma heap_inv_CloseAll: "store_ok st h \<Longrightarrow> CloseAll st h = (r, st1, h1) \<Longrightarrow> heap_inv h1"
  by (auto simp: store_ok_def CloseAll_spec heap_inv_def sess_inv_Close)

lemma map_of_store_filter:
  "gm_wf m \<Longrightarrow> map_of (filter (\<lambda>e. \<not> idle_before c (h (snd e))) m) k
     = (case map_of m k of None \<Rightarrow> None | Some v \<Rightarrow> if idle_before c (h v) then None else Some v)"
  using map_of_filter_key [of m "\<lambda>k v. \<not> idle_before c (h v)" k]
  by (simp add: case_prod_beta' split: option.splits)

lemma length_filter_compl: "int (length (filter P m)) = gm_len m - gm_len (filter (\<lambda>e. \<not> P e) m)"
  using sum_length_filter_compl [of P m] by (simp add: gm_len_def)

interpretation st: session_store Get Len Remove ExpireIdle CloseAll store_ok
proof unfold_locales
  fix st h
  assume ok: "store_ok st h"
  then have wf: "gm_wf (sessions st)" "store_inv st" "heap_inv h"
    by (auto simp: store_ok_def store_inv_def)
  show "Len st = 0 \<longleftrightarrow> (\<forall>k. Get k st = None)"
    using gm.len_zero_iff [OF wf(1)] by (auto simp: Len_def Get_def fun_eq_iff)
  show "store_ok st1 h1 \<and> err = None \<and> n = Len st1 \<and> (removed \<longleftrightarrow> Get k st = Some v)
      \<and> (removed \<longrightarrow> closed (h1 v))
      \<and> (\<forall>k'. Get k' st1 = (if removed \<and> k' = k then None else Get k' st))"
    if "Remove k v st h = ((removed, n, err), st1, h1)" for k v removed n err st1 h1
    using that wf unfolding Remove_spec [OF wf(2)]
    by (auto simp: Get_def Len_def store_ok_def store_inv_delete delete_conv' heap_inv_upd
        sess_inv_Close heap_invD Close_all split: if_splits)
  show "store_ok st1 h1 \<and> err = None \<and> n = Len st1 \<and> gone = Len st - Len st1
      \<and> (\<forall>k. Get k st1 = (case Get k st of None \<Rightarrow> None
              | Some v \<Rightarrow> if idle_before cutoff (h v) then None else Some v))
      \<and> (\<forall>k v. Get k st = Some v \<and> idle_before cutoff (h v) \<longrightarrow> closed (h1 v))"
    if e: "ExpireIdle cutoff st h = ((gone, n, err), st1, h1)" for cutoff gone n err st1 h1
  proof -
    have "heap_inv h1" using ok e by (rule heap_inv_ExpireIdle)
    moreover have "closed (h1 v)" if "Get k st = Some v" "idle_before cutoff (h v)" for k v
      using e that wf(3) unfolding ExpireIdle_spec [OF wf(2)]
      by (auto simp: Close_all sess_inv_TryExpire heap_invD dest: Get_stored)
    ultimately show ?thesis using e wf unfolding ExpireIdle_spec [OF wf(2)]
      by (auto simp: Get_def Len_def store_ok_def store_inv_filter length_filter_compl
          map_of_store_filter)
  qed
  show "store_ok st1 h1 \<and> err = None \<and> (\<forall>k. Get k st1 = None)
      \<and> (\<forall>k v. Get k st = Some v \<longrightarrow> closed (h1 v) \<and> goroutineWG (h1 v) = 0)"
    if c: "CloseAll st h = (err, st1, h1)" for err st1 h1
  proof -
    have "heap_inv h1" using ok c by (rule heap_inv_CloseAll)
    then show ?thesis using c wf unfolding CloseAll_spec [OF wf(2)]
      by (auto simp: store_ok_def store_inv_def gm_len_def Close_all heap_invD
          dest: Get_stored) (simp add: Get_def)
  qed
qed

section \<open>Runs of a store\<close>

text \<open>
  The store under any sequence of its operations. A factory delivers a session that is
  new to the store, or an error, and leaves the heap well-formed.
\<close>

datatype store_op =
    OpGetOrCreate string "heap \<Rightarrow> (sid option \<times> goerror option) \<times> heap"
  | OpRemove string sid
  | OpExpireIdle time
  | OpCloseAll

definition factory_ok :: "(heap \<Rightarrow> (sid option \<times> goerror option) \<times> heap) \<Rightarrow> store \<Rightarrow> heap \<Rightarrow> bool" where
  "factory_ok create st h \<longleftrightarrow> heap_inv (snd (create h))
     \<and> (\<forall>v. fst (create h) = (Some v, None) \<longrightarrow> v \<notin> snd ` set (sessions st))"

inductive store_step :: "store \<times> heap \<Rightarrow> store_op \<Rightarrow> store \<times> heap \<Rightarrow> bool" where
  step_GetOrCreate: "factory_ok create st h \<Longrightarrow> GetOrCreate key create st h = (r, st1, h1) \<Longrightarrow>
     store_step (st, h) (OpGetOrCreate key create) (st1, h1)"
| step_Remove: "Remove key v st h = (r, st1, h1) \<Longrightarrow> store_step (st, h) (OpRemove key v) (st1, h1)"
| step_ExpireIdle: "ExpireIdle cutoff st h = (r, st1, h1) \<Longrightarrow>
     store_step (st, h) (OpExpireIdle cutoff) (st1, h1)"
| step_CloseAll: "CloseAll st h = (r, st1, h1) \<Longrightarrow> store_step (st, h) OpCloseAll (st1, h1)"

definition store_init :: "store \<times> heap \<Rightarrow> bool" where
  "store_init sh \<longleftrightarrow> (\<exists>m. NewStore m = Inr (fst sh)) \<and> heap_inv (snd sh)"

lemma store_inv_insert:
  assumes "store_inv st" "Get key st = None" "Len st < store_max st" "v \<notin> snd ` set (sessions st)"
  shows "store_inv (st\<lparr>sessions := AList.update key v (sessions st)\<rparr>)"
proof -
  have "AList.update key v (sessions st) = sessions st @ [(key, v)]"
    using assms(2) by (simp add: Get_def update_new)
  moreover have "key \<notin> fst ` set (sessions st)"
    using assms(2) by (simp add: Get_def map_of_eq_None_iff)
  ultimately show ?thesis
    using assms(1,3,4) by (simp add: store_inv_def gm_wf_def gm_len_def Len_def)
qed

lemma GetOrCreate_ok:
  assumes "store_ok st h" "factory_ok create st h" "GetOrCreate key create st h = (r, st1, h1)"
  shows "store_ok st1 h1"
proof -
  obtain v created n err where r: "r = (v, created, n, err)" by (metis prod_cases4)
  from assms(3) [unfolded r] show ?thesis
    using assms(1,2) by (cases rule: GetOrCreate_cases)
      (auto simp: store_ok_def factory_ok_def intro: store_inv_insert)
qed

lemma store_step_ok: "store_step sh op sh1 \<Longrightarrow> store_ok (fst sh) (snd sh) \<Longrightarrow> store_ok (fst sh1) (snd sh1)"
proof (induction rule: store_step.induct)
  case (step_GetOrCreate create st h key r st1 h1)
  then show ?case by (auto intro: GetOrCreate_ok)
next
  case (step_Remove key v st h r st1 h1)
  then show ?case using st.remove_law [of st h key v "fst r" "fst (snd r)" "snd (snd r)"] by simp
next
  case (step_ExpireIdle cutoff st h r st1 h1)
  then show ?case using st.expire_law [of st h cutoff "fst r" "fst (snd r)" "snd (snd r)"] by simp
next
  case (step_CloseAll st h r st1 h1)
  then show ?case using st.close_all_law by auto
qed

interpretation store_run: inductive_invariant store_init store_step "\<lambda>sh. store_ok (fst sh) (snd sh)"
  by unfold_locales (auto simp: store_init_def NewStore_def store_ok_def store_inv_def gm_len_def
      split: if_splits dest: store_step_ok [unfolded store_ok_def])

section \<open>Properties\<close>

definition ex_heap :: heap where
  "ex_heap = (\<lambda>_. ex_session)"

definition ex_factory :: "sid \<Rightarrow> heap \<Rightarrow> (sid option \<times> goerror option) \<times> heap" where
  "ex_factory v h = ((Some v, None), h(v := ex_session))"

definition ex_store :: store where
  "ex_store = \<lparr>store_max = 2, sessions = [(''a'', 1)]\<rparr>"

lemma ex_heap_inv: "heap_inv ex_heap"
  by (simp add: heap_inv_def ex_heap_def ex_session_open)

lemma ex_store_ok: "store_ok ex_store ex_heap"
  by (simp add: store_ok_def store_inv_def ex_store_def gm_wf_def gm_len_def ex_heap_inv)

lemma ex_store_reach: "reach store_init store_step (ex_store, ex_heap(1 := ex_session))"
proof (rule reach_step)
  show "reach store_init store_step (\<lparr>store_max = 2, sessions = []\<rparr>, ex_heap)"
    by (rule reach_init) (auto simp: store_init_def NewStore_def ex_heap_inv intro: exI [of _ 2])
  show "store_step (\<lparr>store_max = 2, sessions = []\<rparr>, ex_heap) (OpGetOrCreate ''a'' (ex_factory 1))
      (ex_store, ex_heap(1 := ex_session))"
    by (rule step_GetOrCreate [where r = "(Some 1, True, 1, None)"])
      (auto simp: factory_ok_def ex_factory_def GetOrCreate_def ex_store_def gm_len_def
        heap_inv_def ex_heap_def ex_session_open)
qed

text \<open>
  C35: Under every sequence of store operations the number of sessions never exceeds the
  configured capacity, no client address has two sessions, and no session is stored under
  two addresses.
\<close>

theorem store_never_exceeds_capacity:
  assumes "reach store_init store_step (st, h)"
  shows "Len st \<le> store_max st \<and> distinct (map fst (sessions st)) \<and> distinct (map snd (sessions st))
       \<and> (\<forall>v. sess_inv (h v))"
  using store_run.inv_reach [OF assms]
  by (simp add: store_ok_def store_inv_def Len_def gm_wf_def heap_inv_def)

theorem store_never_exceeds_capacity_witness:
  "reach store_init store_step (ex_store, ex_heap(1 := ex_session)) \<and> Len ex_store \<le> 2"
  using ex_store_reach store_never_exceeds_capacity [OF ex_store_reach] by (simp add: ex_store_def)

text \<open>
  C36: \<open>GetOrCreate\<close> without an error leaves exactly the returned session under the key and
  every other entry as it was; it creates only when the key was free and the store below
  capacity; asking again for the same key returns the same session and creates nothing,
  whatever the second factory would have made. With an error the store is unchanged.
\<close>

theorem GetOrCreate_unique:
  assumes "store_ok st h" "factory_ok create st h"
    "GetOrCreate key create st h = ((r, created, n, err), st1, h1)"
  shows "(err = None \<longrightarrow> (\<exists>v. r = Some v \<and> Get key st1 = Some v \<and> n = Len st1
           \<and> (\<forall>k. k \<noteq> key \<longrightarrow> Get k st1 = Get k st)
           \<and> (created \<longleftrightarrow> Get key st = None)
           \<and> GetOrCreate key create' st1 h1 = ((Some v, False, Len st1, None), st1, h1)))
       \<and> (err \<noteq> None \<longrightarrow> r = None \<and> \<not> created \<and> st1 = st \<and> Get key st = None)
       \<and> (created \<longrightarrow> Len st < store_max st \<and> Len st1 = Len st + 1)"
proof -
  have wf: "gm_wf (sessions st)" using assms(1) by (simp add: store_ok_def store_inv_def)
  show ?thesis using assms(3)
  proof (cases rule: GetOrCreate_cases)
    case (new v)
    then have "Len st1 = Len st + 1"
      using gm.len_put_new [OF wf, of key v] by (simp add: Len_def Get_def)
    with new show ?thesis
      by (auto simp: Get_def GetOrCreate_def Len_def update_conv')
  qed (auto simp: GetOrCreate_def Get_def Len_def)
qed

theorem GetOrCreate_unique_witness:
  "Get ''b'' (ex_store\<lparr>sessions := [(''a'', 1), (''b'', 2)]\<rparr>) = Some 2
   \<and> Len (ex_store\<lparr>sessions := [(''a'', 1), (''b'', 2)]\<rparr>) = Len ex_store + 1"
proof -
  let ?st1 = "ex_store\<lparr>sessions := [(''a'', 1), (''b'', 2)]\<rparr>"
  have f: "factory_ok (ex_factory 2) ex_store ex_heap"
    by (simp add: factory_ok_def ex_factory_def ex_store_def heap_inv_upd ex_heap_inv ex_session_open)
  have g: "GetOrCreate ''b'' (ex_factory 2) ex_store ex_heap
      = ((Some 2, True, 2, None), ?st1, ex_heap(2 := ex_session))"
    by (simp add: GetOrCreate_def ex_factory_def ex_store_def gm_len_def)
  show ?thesis using GetOrCreate_unique [OF ex_store_ok f g, where create' = "ex_factory 3"] by simp
qed

text \<open>
  \<open>Remove\<close> takes a session out only while the key still maps to that very session; a
  stale removal after the client reconnected leaves the replacement stored and untouched.
  A removed session is closed, with its goroutines ended, and is never removed twice.
\<close>

theorem Remove_only_expected:
  assumes "store_ok st h" "Remove key v st h = ((removed, n, err), st1, h1)"
  shows "(removed \<longleftrightarrow> Get key st = Some v) \<and> err = None \<and> n = Len st1
       \<and> (\<not> removed \<longrightarrow> st1 = st \<and> h1 = h)
       \<and> (removed \<longrightarrow> Get key st1 = None \<and> Len st1 = Len st - 1 \<and> closed (h1 v)
            \<and> goroutineWG (h1 v) = 0 \<and> (\<forall>k. k \<noteq> key \<longrightarrow> Get k st1 = Get k st)
            \<and> (\<forall>w. w \<noteq> v \<longrightarrow> h1 w = h w))
       \<and> \<not> fst (fst (Remove key v st1 h1))"
proof -
  have wf: "store_inv st" "gm_wf (sessions st)" "heap_inv h"
    using assms(1) by (auto simp: store_ok_def store_inv_def)
  note law = st.remove_law [OF assms]
  have "\<not> fst (fst (Remove key v st1 h1))"
    using st.remove_once [OF assms] by (metis prod.collapse)
  moreover have "Len st1 = Len st - 1 \<and> goroutineWG (h1 v) = 0 \<and> (\<forall>w. w \<noteq> v \<longrightarrow> h1 w = h w)" if removed
  proof -
    have "map_of (sessions st) key = Some v" using that law by (simp add: Get_def)
    then have "st1 = st\<lparr>sessions := AList.delete key (sessions st)\<rparr>" "h1 = h(v := snd (Close (h v)))"
      using assms(2) unfolding Remove_spec [OF wf(1)] by auto
    with gm.len_del_old [OF wf(2) \<open>map_of (sessions st) key = Some v\<close>] wf(3) show ?thesis
      by (simp add: Len_def Close_all heap_invD)
  qed
  moreover have "st1 = st \<and> h1 = h" if "\<not> removed"
    using that assms(2) unfolding Remove_spec [OF wf(1)] by (simp split: if_splits)
  ultimately show ?thesis using law by simp
qed

theorem Remove_only_expected_witness:
  "Remove ''a'' 7 ex_store ex_heap = ((False, 1, None), ex_store, ex_heap)
   \<and> Get ''a'' ex_store = Some 1"
proof -
  have r: "Remove ''a'' 7 ex_store ex_heap = ((False, 1, None), ex_store, ex_heap)"
    by (simp add: Remove_def ex_store_def gm_len_def)
  have "Get ''a'' ex_store \<noteq> Some 7"
    using Remove_only_expected [OF ex_store_ok r] by blast
  with r show ?thesis by (simp add: Get_def ex_store_def)
qed

text \<open>
  One idle sweep removes exactly the open sessions whose last activity lies before the
  cutoff, reports how many there were and how many remain, closes each of them with its
  goroutines, and leaves every other session's state and entry as it was.
\<close>

theorem ExpireIdle_exact:
  assumes "store_ok st h" "ExpireIdle cutoff st h = ((expired, n, err), st1, h1)"
  shows "err = None \<and> expired = Len st - Len st1 \<and> n = Len st1
       \<and> (\<forall>k v. Get k st1 = Some v \<longleftrightarrow>
             Get k st = Some v \<and> (closed (h v) \<or> cutoff \<le> LastActivity (h v)))
       \<and> (\<forall>k v. Get k st = Some v \<and> Get k st1 = None \<longrightarrow> closed (h1 v) \<and> goroutineWG (h1 v) = 0)
       \<and> (\<forall>k v. Get k st1 = Some v \<longrightarrow> h1 v = h v)"
proof -
  have wf: "store_inv st" "heap_inv h" using assms(1) by (auto simp: store_ok_def)
  have law: "err = None" "n = Len st1" "expired = Len st - Len st1"
    "\<And>k. Get k st1 = (case Get k st of None \<Rightarrow> None
              | Some v \<Rightarrow> if idle_before cutoff (h v) then None else Some v)"
    using st.expire_law [OF assms] by auto
  have h1: "h1 v = (if v \<in> snd ` set (sessions st) \<and> idle_before cutoff (h v)
      then snd (Close (snd (TryExpire cutoff (h v)))) else h v)" for v
    using arg_cong [OF assms(2), of "\<lambda>r. snd (snd r) v"] unfolding ExpireIdle_spec [OF wf(1)]
    by (simp only: snd_conv)
  have idle: "idle_before cutoff s \<longleftrightarrow> \<not> (closed s \<or> cutoff \<le> LastActivity s)" for s
    by (auto simp: idle_before_def)
  have "closed (h1 v) \<and> goroutineWG (h1 v) = 0" if "Get k st = Some v" "Get k st1 = None" for k v
    using that law(4) [of k] Get_stored [OF that(1)] wf(2)
    by (auto simp: h1 Close_all sess_inv_TryExpire heap_invD split: if_splits)
  moreover have kept: "Get k st1 = Some v \<longleftrightarrow> Get k st = Some v \<and> \<not> idle_before cutoff (h v)" for k v
    by (auto simp: law(4) split: option.splits)
  moreover have "h1 v = h v" if "Get k st1 = Some v" for k v
    using that unfolding kept by (simp add: h1)
  ultimately show ?thesis using law(1-3) unfolding idle by blast
qed

lemma ex_session_LastActivity: "LastActivity ex_session = unix_epoch"
  using UnixNano_roundtrip [of unix_epoch]
  by (simp add: LastActivity_def ex_session_def NewSession_def ex_options_def touch_def Let_def
      nano_range_def go_time)

theorem ExpireIdle_exact_witness:
  "ExpireIdle unix_epoch ex_store ex_heap = ((0, 1, None), ex_store, ex_heap)
   \<and> Get ''a'' ex_store = Some 1 \<and> \<not> closed (ex_heap 1) \<and> unix_epoch \<le> LastActivity (ex_heap 1)"
proof -
  have "ExpireIdle unix_epoch ex_store ex_heap = ((0, 1, None), ex_store, ex_heap)"
    unfolding ExpireIdle_spec [OF ex_store_ok [unfolded store_ok_def, THEN conjunct1]]
    by (simp add: ex_store_def gm_len_def idle_before_def ex_heap_def ex_session_LastActivity)
  moreover from ExpireIdle_exact [OF ex_store_ok this]
  have "Get ''a'' ex_store = Some 1 \<longrightarrow> closed (ex_heap 1) \<or> unix_epoch \<le> LastActivity (ex_heap 1)"
    by blast
  ultimately show ?thesis
    by (simp add: ex_heap_def ex_session_open) (simp add: Get_def ex_store_def)
qed

end
