(* ===== verification/GoStrings.thy ===== *)
theory GoStrings
  imports GoErrors "HOL-Library.Sublist"
begin

text \<open>
  The string functions of Go's library that the program calls, on strings as lists of
  bytes (\<open>char\<close>): \<open>strings.TrimSpace\<close>, \<open>strings.Split\<close> on a comma, \<open>hex.DecodeString\<close>,
  \<open>strconv.Atoi\<close>.
\<close>

section \<open>TrimSpace\<close>

text \<open>
  The UTF-8 encodings of the code points \<open>unicode.IsSpace\<close> accepts: the six ASCII ones,
  then U+0085, U+00A0, U+1680, U+2000 to U+200A, U+2028, U+2029, U+202F, U+205F, U+3000.
\<close>

definition space_encodings :: "string list" where
  "space_encodings =
     [[CHR 0x09], [CHR 0x0A], [CHR 0x0B], [CHR 0x0C], [CHR 0x0D], [CHR 0x20],
      [CHR 0xC2, CHR 0x85], [CHR 0xC2, CHR 0xA0], [CHR 0xE1, CHR 0x9A, CHR 0x80],
      [CHR 0xE2, CHR 0x80, CHR 0x80], [CHR 0xE2, CHR 0x80, CHR 0x81],
      [CHR 0xE2, CHR 0x80, CHR 0x82], [CHR 0xE2, CHR 0x80, CHR 0x83],
      [CHR 0xE2, CHR 0x80, CHR 0x84], [CHR 0xE2, CHR 0x80, CHR 0x85],
      [CHR 0xE2, CHR 0x80, CHR 0x86], [CHR 0xE2, CHR 0x80, CHR 0x87],
      [CHR 0xE2, CHR 0x80, CHR 0x88], [CHR 0xE2, CHR 0x80, CHR 0x89],
      [CHR 0xE2, CHR 0x80, CHR 0x8A], [CHR 0xE2, CHR 0x80, CHR 0xA8],
      [CHR 0xE2, CHR 0x80, CHR 0xA9], [CHR 0xE2, CHR 0x80, CHR 0xAF],
      [CHR 0xE2, CHR 0x81, CHR 0x9F], [CHR 0xE3, CHR 0x80, CHR 0x80]]"

fun strip_first :: "string list \<Rightarrow> string \<Rightarrow> string option" where
  "strip_first [] s = None"
| "strip_first (e # es) s =
     (if e \<noteq> [] \<and> prefix e s then Some (drop (length e) s) else strip_first es s)"

lemma strip_first_shorter: "strip_first es s = Some t \<Longrightarrow> length t < length s"
proof (induction es)
  case (Cons e es)
  then show ?case using prefix_length_le [of e s]
    by (auto split: if_splits) (metis diff_less length_greater_0_conv order_less_le_trans)
qed simp

function trim_start :: "string list \<Rightarrow> string \<Rightarrow> string" where
  "trim_start es s = (case strip_first es s of None \<Rightarrow> s | Some t \<Rightarrow> trim_start es t)"
  by pat_completeness auto
termination
  by (relation "measure (\<lambda>(es, s). length s)") (auto dest: strip_first_shorter)

declare trim_start.simps [simp del]

definition TrimSpace :: "string \<Rightarrow> string" where
  "TrimSpace s = rev (trim_start (map rev space_encodings) (rev (trim_start space_encodings s)))"

lemma strip_first_None: "strip_first es s = None \<longleftrightarrow> (\<forall>e \<in> set es. e = [] \<or> \<not> prefix e s)"
  by (induction es) auto

lemma trim_start_stable: "strip_first es (trim_start es s) = None"
proof (induction es s rule: trim_start.induct)
  case (1 es s)
  then show ?case by (subst trim_start.simps) (auto split: option.split)
qed

lemma trim_start_id: "strip_first es s = None \<Longrightarrow> trim_start es s = s"
  by (subst trim_start.simps) simp

lemma strip_first_suffix: "strip_first es s = Some t \<Longrightarrow> suffix t s"
  by (induction es) (auto split: if_splits intro: suffix_drop)

lemma trim_start_suffix: "suffix (trim_start es s) s"
proof (induction es s rule: trim_start.induct)
  case (1 es s)
  then show ?case
    by (subst trim_start.simps)
      (auto split: option.split dest: strip_first_suffix intro: suffix_order.trans)
qed

lemma TrimSpace_Nil [simp]: "TrimSpace [] = []"
  by (simp add: TrimSpace_def trim_start_id strip_first_None)

text \<open>Trimming twice trims nothing more.\<close>

lemma TrimSpace_idem: "TrimSpace (TrimSpace s) = TrimSpace s"
proof -
  let ?l = "trim_start space_encodings s" and ?r = "map rev space_encodings"
  let ?t = "trim_start ?r (rev ?l)"
  have "prefix (rev ?t) ?l"
    using trim_start_suffix [of ?r "rev ?l"] by (simp add: suffix_to_prefix)
  moreover have "strip_first space_encodings ?l = None" by (rule trim_start_stable)
  ultimately have "strip_first space_encodings (rev ?t) = None"
    by (auto simp: strip_first_None intro: prefix_order.trans)
  then show ?thesis
    by (simp add: TrimSpace_def trim_start_id trim_start_stable)
qed

section \<open>Split on a comma\<close>

fun Split_comma :: "string \<Rightarrow> string list" where
  "Split_comma [] = [[]]"
| "Split_comma (c # s) =
     (if c = CHR '','' then [] # Split_comma s
      else case Split_comma s of [] \<Rightarrow> [[c]] | p # ps \<Rightarrow> (c # p) # ps)"

lemma Split_comma_nonempty: "Split_comma s \<noteq> []"
  by (induction s) (auto split: list.splits)

text \<open>Joining the parts with commas gives the string back; no part holds a comma.\<close>

fun Join_comma :: "string list \<Rightarrow> string" where
  "Join_comma [] = []"
| "Join_comma [p] = p"
| "Join_comma (p # ps) = p @ CHR '','' # Join_comma ps"

lemma Join_comma_cons: "ps \<noteq> [] \<Longrightarrow> Join_comma (p # ps) = p @ CHR '','' # Join_comma ps"
  by (cases ps) auto

lemma Split_comma_no_comma: "p \<in> set (Split_comma s) \<Longrightarrow> CHR '','' \<notin> set p"
  by (induction s arbitrary: p) (auto split: if_splits list.splits)

lemma Join_Split: "Join_comma (Split_comma s) = s"
proof (induction s)
  case (Cons c s)
  show ?case
  proof (cases "Split_comma s")
    case Nil
    then show ?thesis using Split_comma_nonempty by blast
  next
    case (Cons p ps)
    with \<open>Join_comma (Split_comma s) = s\<close> show ?thesis by (cases ps) auto
  qed
qed simp

section \<open>Hexadecimal\<close>

definition fromHexChar :: "char \<Rightarrow> byte option" where
  "fromHexChar c =
     (let n = (of_char c :: nat)
      in if 48 \<le> n \<and> n \<le> 57 then Some (of_nat (n - 48))
         else if 97 \<le> n \<and> n \<le> 102 then Some (of_nat (n - 97 + 10))
         else if 65 \<le> n \<and> n \<le> 70 then Some (of_nat (n - 65 + 10))
         else None)"

fun hex_DecodeString :: "string \<Rightarrow> goerror + bytes" where
  "hex_DecodeString [] = Inr []"
| "hex_DecodeString [c] =
     (case fromHexChar c of None \<Rightarrow> Inl (ErrText ''encoding/hex: invalid byte'')
                          | Some _ \<Rightarrow> Inl (ErrText ''encoding/hex: odd length hex string''))"
| "hex_DecodeString (p # q # s) =
     (case (fromHexChar p, fromHexChar q) of
        (Some a, Some b) \<Rightarrow>
          (case hex_DecodeString s of Inl e \<Rightarrow> Inl e | Inr bs \<Rightarrow> Inr ((a * 16 + b) # bs))
      | _ \<Rightarrow> Inl (ErrText ''encoding/hex: invalid byte''))"

text \<open>The inverse, for the round trip: two lower-case digits per byte.\<close>

definition hex_digit :: "nat \<Rightarrow> char" where
  "hex_digit n = char_of (if n < 10 then n + 48 else n + 87)"

fun hex_EncodeToString :: "bytes \<Rightarrow> string" where
  "hex_EncodeToString [] = []"
| "hex_EncodeToString (b # bs) =
     hex_digit (unat b div 16) # hex_digit (unat b mod 16) # hex_EncodeToString bs"

lemma fromHexChar_digit: "n < 16 \<Longrightarrow> fromHexChar (hex_digit n) = Some (of_nat n)"
  by (auto simp: fromHexChar_def hex_digit_def Let_def)

lemma byte_digits: "of_nat (unat (b :: byte) div 16) * 16 + of_nat (unat b mod 16) = b"
proof -
  have "(of_nat (unat b div 16) * 16 + of_nat (unat b mod 16) :: byte)
      = of_nat (unat b div 16 * 16 + unat b mod 16)"
    by (simp only: of_nat_add of_nat_mult of_nat_numeral)
  then show ?thesis by (simp add: div_mult_mod_eq del: of_nat_add of_nat_mult of_nat_div of_nat_mod)
qed

lemma hex_roundtrip: "hex_DecodeString (hex_EncodeToString bs) = Inr bs"
proof (induction bs)
  case (Cons b bs)
  have "unat b < 256" using unsigned_less [of b] by simp
  then have "unat b div 16 < 16" by simp
  with Cons show ?case by (simp add: fromHexChar_digit byte_digits del: of_nat_div of_nat_mod)
qed simp

lemma hex_length: "hex_DecodeString s = Inr bs \<Longrightarrow> length s = 2 * length bs"
  by (induction s arbitrary: bs rule: hex_DecodeString.induct)
    (auto split: option.splits sum.splits)

section \<open>Atoi\<close>

fun digit_value :: "char \<Rightarrow> nat option" where
  "digit_value c = (let n = (of_char c :: nat) in if 48 \<le> n \<and> n \<le> 57 then Some (n - 48) else None)"

fun digits_value :: "nat \<Rightarrow> string \<Rightarrow> nat option" where
  "digits_value acc [] = Some acc"
| "digits_value acc (c # s) =
     (case digit_value c of None \<Rightarrow> None | Some d \<Rightarrow> digits_value (10 * acc + d) s)"

text \<open>
  \<open>strconv.Atoi\<close>: an optional sign, at least one decimal digit, a value that fits an
  \<open>int\<close>; otherwise a \<open>NumError\<close>, whose two kinds (syntax, range) the program does not tell
  apart.
\<close>

definition Atoi :: "string \<Rightarrow> goerror + int" where
  "Atoi s =
     (let neg = (s \<noteq> [] \<and> hd s = CHR ''-'');
          body = (if s \<noteq> [] \<and> (hd s = CHR ''-'' \<or> hd s = CHR ''+'') then tl s else s)
      in if body = [] then Inl (ErrText ''strconv.Atoi: NumError'')
         else case digits_value 0 body of
                None \<Rightarrow> Inl (ErrText ''strconv.Atoi: NumError'')
              | Some n \<Rightarrow>
                  let v = (if neg then - int n else int n)
                  in if v < min_int64 \<or> max_int64 < v
                     then Inl (ErrText ''strconv.Atoi: NumError'') else Inr v)"

lemma Atoi_range: "Atoi s = Inr v \<Longrightarrow> min_int64 \<le> v \<and> v \<le> max_int64"
  by (auto simp: Atoi_def Let_def split: option.splits if_splits)

section \<open>Decimal numbers\<close>

text \<open>The digits \<open>fmt\<close> prints for an integer, and that \<open>Atoi\<close> reads them back.\<close>

definition digit_char :: "nat \<Rightarrow> char" where
  "digit_char d = char_of (48 + d)"

fun print_nat :: "nat \<Rightarrow> string" where
  "print_nat n = (if n < 10 then [digit_char n] else print_nat (n div 10) @ [digit_char (n mod 10)])"

declare print_nat.simps [simp del]

definition print_int :: "int \<Rightarrow> string" where
  "print_int v = (if v < 0 then CHR ''-'' # print_nat (nat (- v)) else print_nat (nat v))"

lemma digit_value_char [simp]: "d < 10 \<Longrightarrow> digit_value (digit_char d) = Some d"
  by (simp add: digit_char_def)

lemma digits_value_append:
  "digits_value acc (s @ t) = (case digits_value acc s of None \<Rightarrow> None | Some v \<Rightarrow> digits_value v t)"
  by (induction s arbitrary: acc) (auto split: option.split)

lemma digits_print_nat: "digits_value 0 (print_nat n) = Some n"
proof (induction n rule: print_nat.induct)
  case (1 n)
  then show ?case
    by (cases "n < 10") (simp_all add: print_nat.simps [of n] digits_value_append del: digit_value.simps)
qed

lemma print_nat_nonempty [simp]: "print_nat n \<noteq> []"
  by (subst print_nat.simps) simp

lemma print_nat_digits: "c \<in> set (print_nat n) \<Longrightarrow> digit_value c \<noteq> None"
proof (induction n rule: print_nat.induct)
  case (1 n)
  then show ?case by (cases "n < 10") (auto simp: print_nat.simps [of n] simp del: digit_value.simps)
qed

lemma hd_print_nat: "hd (print_nat n) \<noteq> CHR ''-''" "hd (print_nat n) \<noteq> CHR ''+''"
  using print_nat_digits [of "hd (print_nat n)" n] by auto

lemma Atoi_print_int:
  assumes "min_int64 \<le> v" "v \<le> max_int64"
  shows "Atoi (print_int v) = Inr v"
  using assms by (simp add: Atoi_def print_int_def Let_def hd_print_nat digits_print_nat)

end
