(* ===== verification/GoNet.thy ===== *)
theory GoNet
  imports GoStrings
begin

text \<open>
  What the program uses of Go's network libraries. Addresses are byte lists, with the
  predicates of \<open>net.IP\<close> written out. What depends on the machine, the resolver or a peer
  (resolving a name, sending a request) or is a library parser of its own (URLs, JSON, YAML)
  is a field of the record \<open>netlib\<close>, a parameter of every definition that uses it.
\<close>

section \<open>IP addresses\<close>

type_synonym ip = bytes

definition To4 :: "ip \<Rightarrow> ip option" where
  "To4 a =
     (if length a = 4 then Some a
      else if length a = 16 \<and> take 10 a = replicate 10 0 \<and> take 2 (drop 10 a) = [255, 255]
      then Some (drop 12 a) else None)"

definition IsLoopback :: "ip \<Rightarrow> bool" where
  "IsLoopback a =
     (case To4 a of Some v4 \<Rightarrow> hd v4 = 127 | None \<Rightarrow> a = replicate 15 0 @ [1])"

definition IsUnspecified :: "ip \<Rightarrow> bool" where
  "IsUnspecified a \<longleftrightarrow> To4 a = Some [0, 0, 0, 0] \<or> a = replicate 16 0"

text \<open>A field \<open>IP\<close> of a resolved address may be nil.\<close>

definition specific_ip :: "ip option \<Rightarrow> bool" where
  "specific_ip a = (case a of None \<Rightarrow> False | Some b \<Rightarrow> \<not> IsUnspecified b)"

definition loopback_ip :: "ip option \<Rightarrow> bool" where
  "loopback_ip a = (case a of None \<Rightarrow> False | Some b \<Rightarrow> IsLoopback b)"

lemma loopback_specific: "loopback_ip a \<Longrightarrow> specific_ip a"
proof -
  have "replicate 15 0 @ [1] \<noteq> replicate 16 (0 :: byte)" by (simp add: numeral_eq_Suc)
  then show "loopback_ip a \<Longrightarrow> specific_ip a"
    by (cases a) (auto simp: loopback_ip_def specific_ip_def IsLoopback_def IsUnspecified_def To4_def
        split: option.splits if_splits)
qed

section \<open>URLs and HTTP\<close>

record url =
  Scheme :: string
  Host :: string
  Hostname :: string
  has_User :: bool
  RawQuery :: string
  Fragment :: string
  url_text :: string

record http_request =
  rq_method :: string
  rq_url :: string
  rq_headers :: "(string \<times> string) list"
  rq_body :: "string option"

record http_response =
  StatusCode :: int
  Body :: string
  Body_err :: "goerror option"

record netlib =
  url_Parse :: "string \<Rightarrow> goerror + url"
  url_JoinPath :: "string \<Rightarrow> string list \<Rightarrow> goerror + string"
  http_NewRequest :: "string \<Rightarrow> string \<Rightarrow> goerror option"
  http_Do :: "http_request \<Rightarrow> goerror + http_response"
  json_first :: "string \<Rightarrow> goerror + string \<times> string"
  json_next :: "string \<Rightarrow> goerror option"
  ParseIP :: "string \<Rightarrow> ip option"
  ResolveUDPAddr :: "string \<Rightarrow> goerror + ip option"
  ResolveTCPAddr :: "string \<Rightarrow> goerror + ip option"

text \<open>
  \<open>json_first s\<close> is the first \<open>Decode\<close> of a decoder over \<open>s\<close>: an error, or the string at
  \<open>attributes.current_state\<close> (empty when absent) and the input left; \<open>json_next\<close> is the
  second \<open>Decode\<close> on that rest: \<open>None\<close> when it finds another value, otherwise its error.
  Errors of the libraries are never of the program's own error types.
\<close>

fun foreign_error :: "goerror \<Rightarrow> bool" where
  "foreign_error (PermanentError e) = False"
| "foreign_error (RedactedError e m) = False"
| "foreign_error (InconclusiveReadinessError e) = False"
| "foreign_error (Wrap m e) = foreign_error e"
| "foreign_error (NetErr b e) = foreign_error e"
| "foreign_error (JoinErr es) = False"
| "foreign_error e = True"

lemma foreign_not_permanent: "foreign_error e \<Longrightarrow> \<not> IsPermanent (Some e)"
  by (induction e rule: foreign_error.induct) (auto simp: IsPermanent_def)

definition netlib_foreign :: "netlib \<Rightarrow> bool" where
  "netlib_foreign lib \<longleftrightarrow>
     (\<forall>b ps e. url_JoinPath lib b ps = Inl e \<longrightarrow> foreign_error e)
   \<and> (\<forall>m u e. http_NewRequest lib m u = Some e \<longrightarrow> foreign_error e)
   \<and> (\<forall>r e. http_Do lib r = Inl e \<longrightarrow> foreign_error e)
   \<and> (\<forall>r resp e. http_Do lib r = Inr resp \<longrightarrow> Body_err resp = Some e \<longrightarrow> foreign_error e)"

text \<open>\<open>io.ReadAll(io.LimitReader(body, n))\<close>.\<close>

definition read_limited :: "nat \<Rightarrow> http_response \<Rightarrow> goerror + string" where
  "read_limited n resp =
     (if n \<le> length (Body resp) then Inr (take n (Body resp))
      else case Body_err resp of Some e \<Rightarrow> Inl e | None \<Rightarrow> Inr (Body resp))"

lemma read_limited_length: "read_limited n resp = Inr b \<Longrightarrow> length b \<le> n"
  by (auto simp: read_limited_def split: if_splits option.splits)

section \<open>ReplaceAll\<close>

text \<open>
  \<open>strings.ReplaceAll\<close> for a non-empty pattern: left to right, without overlaps. (The
  constructor of the client refuses empty patterns.)
\<close>

function ReplaceAll :: "string \<Rightarrow> string \<Rightarrow> string \<Rightarrow> string" where
  "ReplaceAll s old new =
     (if old = [] then s
      else case s of
             [] \<Rightarrow> []
           | c # cs \<Rightarrow>
               if prefix old s then new @ ReplaceAll (drop (length old) s) old new
               else c # ReplaceAll cs old new)"
  by pat_completeness auto
termination
  by (relation "measure (\<lambda>(s, old, new). length s)") auto

declare ReplaceAll.simps [simp del]

text \<open>The stretches of the input that \<open>ReplaceAll\<close> leaves alone.\<close>

function kept_parts :: "string \<Rightarrow> string \<Rightarrow> string list" where
  "kept_parts s old =
     (if old = [] then [s]
      else case s of
             [] \<Rightarrow> [[]]
           | c # cs \<Rightarrow>
               if prefix old s then [] # kept_parts (drop (length old) s) old
               else (c # hd (kept_parts cs old)) # tl (kept_parts cs old))"
  by pat_completeness auto
termination
  by (relation "measure (\<lambda>(s, old). length s)") auto

declare kept_parts.simps [simp del]

fun join_with :: "string \<Rightarrow> string list \<Rightarrow> string" where
  "join_with sep [] = []"
| "join_with sep [p] = p"
| "join_with sep (p # ps) = p @ sep @ join_with sep ps"

lemma join_with_Cons: "ps \<noteq> [] \<Longrightarrow> join_with sep (p # ps) = p @ sep @ join_with sep ps"
  by (cases ps) auto

lemma join_with_hd: "ps \<noteq> [] \<Longrightarrow> join_with sep ((c # hd ps) # tl ps) = c # join_with sep ps"
  by (cases ps; cases "tl ps") auto

lemma kept_parts_nonempty: "kept_parts s old \<noteq> []"
  by (subst kept_parts.simps) (auto split: list.splits)

lemma ReplaceAll_join: "old \<noteq> [] \<Longrightarrow> ReplaceAll s old new = join_with new (kept_parts s old)"
proof (induction s old rule: kept_parts.induct)
  case (1 s old)
  then show ?case
    by (subst ReplaceAll.simps, subst kept_parts.simps)
      (auto split: list.split simp: join_with_Cons join_with_hd kept_parts_nonempty)
qed

lemma kept_parts_hd_prefix: "prefix (hd (kept_parts s old)) s"
proof (induction s old rule: kept_parts.induct)
  case (1 s old)
  then show ?case by (subst kept_parts.simps) (auto split: list.split)
qed

lemma kept_parts_sublist: "p \<in> set (kept_parts s old) \<Longrightarrow> sublist p s"
proof (induction s old arbitrary: p rule: kept_parts.induct)
  case (1 s old)
  show ?case
  proof (cases s)
    case Nil
    with "1.prems" show ?thesis by (subst (asm) kept_parts.simps) (auto split: if_splits)
  next
    case (Cons c cs)
    consider "old = []" | "old \<noteq> []" "prefix old s" | "old \<noteq> []" "\<not> prefix old s" by blast
    then show ?thesis
    proof cases
      case 1
      with "1.prems" show ?thesis by (subst (asm) kept_parts.simps) auto
    next
      case 2
      then have "p = [] \<or> p \<in> set (kept_parts (drop (length old) s) old)"
        using "1.prems" Cons by (subst (asm) kept_parts.simps) auto
      with 2 have "p = [] \<or> sublist p (drop (length old) s)"
        using "1.IH"(1) [OF _ Cons] by blast
      then show ?thesis by (auto intro: sublist_order.order.trans sublist_drop)
    next
      case 3
      then have "p = c # hd (kept_parts cs old) \<or> p \<in> set (tl (kept_parts cs old))"
        using "1.prems" Cons by (subst (asm) kept_parts.simps) auto
      then show ?thesis
      proof
        assume "p = c # hd (kept_parts cs old)"
        then show ?thesis using kept_parts_hd_prefix [of cs old] Cons
          by (auto intro: prefix_imp_sublist)
      next
        assume "p \<in> set (tl (kept_parts cs old))"
        then have "sublist p cs"
          using "1.IH"(2) 3 Cons kept_parts_nonempty by (metis list.set_sel(2))
        then show ?thesis using Cons by (auto intro: sublist_Cons_right [THEN iffD2])
      qed
    qed
  qed
qed

text \<open>No stretch left alone holds the pattern.\<close>

lemma kept_parts_clean: "old \<noteq> [] \<Longrightarrow> p \<in> set (kept_parts s old) \<Longrightarrow> \<not> sublist old p"
proof (induction s old arbitrary: p rule: kept_parts.induct)
  case (1 s old)
  show ?case
  proof (cases s)
    case Nil
    with "1.prems" show ?thesis by (subst (asm) kept_parts.simps) auto
  next
    case (Cons c cs)
    show ?thesis
    proof (cases "prefix old s")
      case True
      then have "p = [] \<or> p \<in> set (kept_parts (drop (length old) s) old)"
        using "1.prems" Cons by (subst (asm) kept_parts.simps) auto
      then show ?thesis using "1.IH"(1) [OF _ Cons True] "1.prems"(1) by auto
    next
      case False
      note IH = "1.IH"(2) [OF "1.prems"(1) Cons False "1.prems"(1)]
      have "p = c # hd (kept_parts cs old) \<or> p \<in> set (kept_parts cs old)"
        using "1.prems" Cons False kept_parts_nonempty [of cs old]
        by (subst (asm) kept_parts.simps) (auto dest: list.set_sel(2))
      then show ?thesis
      proof
        assume p: "p = c # hd (kept_parts cs old)"
        have "\<not> prefix old p"
          using False kept_parts_hd_prefix [of cs old] prefix_order.trans unfolding p Cons
          by (metis prefix_code(3))
        moreover have "\<not> sublist old (hd (kept_parts cs old))"
          by (rule IH) (simp add: kept_parts_nonempty)
        ultimately show ?thesis by (auto simp: p sublist_Cons_right)
      qed (rule IH)
    qed
  qed
qed

lemma sublist_separated:
  assumes "sublist sec (xs @ c # ys)" "c \<notin> set sec"
  shows "sublist sec xs \<or> sublist sec ys"
proof -
  have "sublist sec xs \<or> sublist sec (c # ys) \<or>
      (\<exists>a b. sec = a @ b \<and> suffix a xs \<and> prefix b (c # ys))"
    using assms(1) by (auto simp: sublist_append)
  then show ?thesis
  proof (elim disjE exE conjE)
    fix a b
    assume "sec = a @ b" "suffix a xs" "prefix b (c # ys)"
    with assms(2) have "b = []" by (cases b) auto
    with \<open>sec = a @ b\<close> \<open>suffix a xs\<close> show ?thesis by (simp add: suffix_imp_sublist)
  next
    assume "sublist sec (c # ys)"
    with assms(2) show ?thesis by (cases sec) (auto simp: sublist_Cons_right)
  qed simp
qed

lemma sublist_join_with:
  assumes "sublist sec (join_with (l # mid @ [r]) ps)" "l \<notin> set sec" "r \<notin> set sec"
    "\<not> sublist sec mid" "sec \<noteq> []"
  shows "\<exists>p \<in> set ps. sublist sec p"
  using assms
proof (induction ps)
  case (Cons p ps)
  show ?case
  proof (cases ps)
    case Nil
    with Cons show ?thesis by simp
  next
    case (Cons q qs)
    then have "sublist sec (p @ l # (mid @ r # join_with (l # mid @ [r]) ps))"
      using Cons.prems(1) by (simp add: join_with_Cons)
    then have "sublist sec p \<or> sublist sec (mid @ r # join_with (l # mid @ [r]) ps)"
      using assms(2) by (rule sublist_separated)
    then have "sublist sec p \<or> sublist sec mid \<or> sublist sec (join_with (l # mid @ [r]) ps)"
      using sublist_separated [OF _ assms(3)] by blast
    then show ?thesis using Cons.IH Cons.prems by auto
  qed
qed simp

lemma ReplaceAll_id: "\<not> sublist old s \<Longrightarrow> ReplaceAll s old new = s"
proof (induction s)
  case Nil
  then show ?case by (subst ReplaceAll.simps) simp
next
  case (Cons c cs)
  then show ?case by (subst ReplaceAll.simps) (auto simp: sublist_Cons_right)
qed

end
