(* ===== verification/Pterodactyl.thy ===== *)
theory Pterodactyl
  imports GoNet
begin

text \<open>
  pkg/server/pterodactyl.go: the client of the panel's API. The HTTP transport, the URL and
  the JSON libraries are the parameter \<open>lib\<close>; every call returns the requests it sent beside
  its result. \<open>controller\<close> is the contract of the interface \<open>server.Controller\<close>.
\<close>

datatype server_state = StateOffline | StateStarting | StateRunning | StateStopping

definition state_of_string :: "string \<Rightarrow> server_state option" where
  "state_of_string s =
     (if s = ''offline'' then Some StateOffline
      else if s = ''starting'' then Some StateStarting
      else if s = ''running'' then Some StateRunning
      else if s = ''stopping'' then Some StateStopping
      else None)"

record pterodactyl_config =
  pc_BaseURL :: string
  pc_APIToken :: string
  pc_ServerID :: string

record pterodactyl_client =
  baseURL :: url
  apiToken :: string
  serverID :: string
  client_Timeout :: duration
  follows_redirects :: bool

text \<open>The regular expression \<open>^[A-Za-z0-9_-]+$\<close>.\<close>

definition safe_char :: "char \<Rightarrow> bool" where
  "safe_char c \<longleftrightarrow>
     (let n = (of_char c :: nat)
      in 65 \<le> n \<and> n \<le> 90 \<or> 97 \<le> n \<and> n \<le> 122 \<or> 48 \<le> n \<and> n \<le> 57 \<or> n = 95 \<or> n = 45)"

definition safeServerID :: "string \<Rightarrow> bool" where
  "safeServerID s \<longleftrightarrow> s \<noteq> [] \<and> list_all safe_char s"

text \<open>
  The constructor. The optional argument is the timeout of the caller's \<open>http.Client\<close>;
  the installed \<open>CheckRedirect\<close> makes the copy of it return a redirect as the response.
\<close>

definition NewPterodactylClient ::
    "netlib \<Rightarrow> pterodactyl_config \<Rightarrow> duration option \<Rightarrow> goerror + pterodactyl_client" where
  "NewPterodactylClient lib cfg httpClient =
     (case url_Parse lib (pc_BaseURL cfg) of
        Inl e \<Rightarrow> Inl (ErrText ''invalid Pterodactyl base URL'')
      | Inr u \<Rightarrow>
          if (Scheme u \<noteq> ''http'' \<and> Scheme u \<noteq> ''https'') \<or> Host u = [] \<or> has_User u
             \<or> RawQuery u \<noteq> [] \<or> Fragment u \<noteq> [] then
            Inl (ErrText ''invalid Pterodactyl base URL'')
          else if Scheme u = ''http'' \<and> Hostname u \<noteq> ''localhost''
                  \<and> \<not> loopback_ip (ParseIP lib (Hostname u)) then
            Inl (ErrText ''pterodactyl plaintext HTTP is restricted to loopback tests'')
          else if TrimSpace (pc_APIToken cfg) = [] \<or> \<not> safeServerID (pc_ServerID cfg) then
            Inl (ErrText ''pterodactyl API token and valid server ID are required'')
          else
            let timeout = (case httpClient of None \<Rightarrow> 0 | Some t \<Rightarrow> t);
                safe_timeout = (if timeout \<le> 0 \<or> timeout > 10 * second then 10 * second else timeout)
            in Inr \<lparr>baseURL = u, apiToken = pc_APIToken cfg, serverID = pc_ServerID cfg,
                    client_Timeout = safe_timeout, follows_redirects = False\<rparr>)"

definition request ::
    "netlib \<Rightarrow> pterodactyl_client \<Rightarrow> string \<Rightarrow> string \<Rightarrow> string option \<Rightarrow> goerror + http_request" where
  "request lib client method endpoint body =
     (case url_JoinPath lib (url_text (baseURL client))
             [''api'', ''client'', ''servers'', serverID client, endpoint] of
        Inl e \<Rightarrow> Inl (Wrap ''construct Pterodactyl request URL'' e)
      | Inr requestURL \<Rightarrow>
          (case http_NewRequest lib method requestURL of
             Some e \<Rightarrow> Inl (Wrap ''construct Pterodactyl request'' e)
           | None \<Rightarrow>
               Inr \<lparr>rq_method = method, rq_url = requestURL,
                    rq_headers = [(''Authorization'', ''Bearer '' @ apiToken client),
                                  (''Accept'', ''application/json'')],
                    rq_body = body\<rparr>))"

definition sanitize :: "pterodactyl_client \<Rightarrow> string \<Rightarrow> string" where
  "sanitize client message =
     ReplaceAll (ReplaceAll message (apiToken client) ''[REDACTED]'') (serverID client) ''[REDACTED]''"

definition sanitizeError :: "goerror \<Rightarrow> goerror" where
  "sanitizeError err = RedactedError err ''Pterodactyl transport request failed''"

definition classifyHTTPError :: "int \<Rightarrow> goerror \<Rightarrow> goerror" where
  "classifyHTTPError statusCode err =
     (if statusCode \<ge> 400 \<and> statusCode < 500 \<and> statusCode \<noteq> 408 \<and> statusCode \<noteq> 429
      then PermanentError err else err)"

definition maxPterodactylStatusBody :: nat where "maxPterodactylStatusBody = 64 * 1024"
definition maxPterodactylErrorBody :: nat where "maxPterodactylErrorBody = 4096"

definition responseError :: "pterodactyl_client \<Rightarrow> string \<Rightarrow> http_response \<Rightarrow> goerror" where
  "responseError client operation response =
     (case read_limited (maxPterodactylErrorBody + 1) response of
        Inl readErr \<Rightarrow>
          classifyHTTPError (StatusCode response) (ErrHTTPRead operation (StatusCode response) readErr)
      | Inr body \<Rightarrow>
          let truncated = length body > maxPterodactylErrorBody;
              body1 = (if truncated then take maxPterodactylErrorBody body else body);
              sanitized = sanitize client body1;
              sfx = (if truncated then '' (truncated)'' else [])
          in classifyHTTPError (StatusCode response)
               (ErrHTTP operation (StatusCode response) sanitized sfx))"

definition Status ::
    "netlib \<Rightarrow> pterodactyl_client \<Rightarrow> http_request list \<times> (goerror + server_state)" where
  "Status lib client =
     (case request lib client ''GET'' ''resources'' None of
        Inl e \<Rightarrow> ([], Inl e)
      | Inr req \<Rightarrow>
          ([req],
           case http_Do lib req of
             Inl e \<Rightarrow> Inl (Wrap ''get Pterodactyl status'' (sanitizeError e))
           | Inr response \<Rightarrow>
               if StatusCode response < 200 \<or> StatusCode response \<ge> 300 then
                 Inl (responseError client ''get Pterodactyl status'' response)
               else
                 (case read_limited (maxPterodactylStatusBody + 1) response of
                    Inl e \<Rightarrow> Inl (Wrap ''read Pterodactyl status'' e)
                  | Inr statusBody \<Rightarrow>
                      if length statusBody > maxPterodactylStatusBody then
                        Inl (PermanentError (ErrText ''pterodactyl status response exceeds limit''))
                      else
                        (case json_first lib statusBody of
                           Inl e \<Rightarrow> Inl (PermanentError (Wrap ''decode Pterodactyl status'' e))
                         | Inr (current_state, rest) \<Rightarrow>
                             if \<not> errors_Is (json_next lib rest) EOF then
                               Inl (PermanentError
                                      (ErrText ''decode Pterodactyl status: trailing JSON value''))
                             else
                               (case state_of_string current_state of
                                  Some st \<Rightarrow> Inr st
                                | None \<Rightarrow>
                                    Inl (PermanentError (ErrText ''unknown Pterodactyl state'')))))))"

text \<open>\<open>json.Marshal(map[string]string{"signal": signal})\<close> for a signal without escapes.\<close>

definition power_body :: "string \<Rightarrow> string" where
  "power_body signal =
     [CHR 0x7B, CHR 0x22] @ ''signal'' @ [CHR 0x22, CHR 0x3A, CHR 0x22] @ signal @ [CHR 0x22, CHR 0x7D]"

definition send_power ::
    "netlib \<Rightarrow> pterodactyl_client \<Rightarrow> string \<Rightarrow> http_request list \<times> goerror option" where
  "send_power lib client signal =
     (case request lib client ''POST'' ''power'' (Some (power_body signal)) of
        Inl e \<Rightarrow> ([], Some e)
      | Inr req \<Rightarrow>
          let req1 = req\<lparr>rq_headers := rq_headers req @ [(''Content-Type'', ''application/json'')]\<rparr>
          in ([req1],
              case http_Do lib req1 of
                Inl e \<Rightarrow> Some (Wrap (''send Pterodactyl '' @ signal @ '' signal'') (sanitizeError e))
              | Inr response \<Rightarrow>
                  if StatusCode response < 200 \<or> StatusCode response \<ge> 300 then
                    Some (responseError client (''send Pterodactyl '' @ signal @ '' signal'') response)
                  else None))"

definition Start :: "netlib \<Rightarrow> pterodactyl_client \<Rightarrow> http_request list \<times> goerror option" where
  "Start lib client = send_power lib client ''start''"

definition Stop :: "netlib \<Rightarrow> pterodactyl_client \<Rightarrow> http_request list \<times> goerror option" where
  "Stop lib client = send_power lib client ''stop''"

section \<open>The controller's contract\<close>

text \<open>
  A controller's status query never changes the server's power state (it sends no POST),
  and a power call sends at most the one power request it is named for.
\<close>

locale controller =
  fixes status :: "'c \<Rightarrow> http_request list \<times> (goerror + server_state)"
    and start stop :: "'c \<Rightarrow> http_request list \<times> goerror option"
  assumes status_reads: "r \<in> set (fst (status c)) \<Longrightarrow> rq_method r = ''GET'' \<and> rq_body r = None"
    and start_once: "length (fst (start c)) \<le> 1"
    and start_signal: "r \<in> set (fst (start c)) \<Longrightarrow>
      rq_method r = ''POST'' \<and> rq_body r = Some (power_body ''start'')"
    and stop_once: "length (fst (stop c)) \<le> 1"
    and stop_signal: "r \<in> set (fst (stop c)) \<Longrightarrow>
      rq_method r = ''POST'' \<and> rq_body r = Some (power_body ''stop'')"
    and start_sent: "snd (start c) = None \<Longrightarrow> length (fst (start c)) = 1"
    and stop_sent: "snd (stop c) = None \<Longrightarrow> length (fst (stop c)) = 1"
begin

text \<open>Polling any number of times sends no power request.\<close>

lemma polling_is_silent:
  "r \<in> set (concat (map (\<lambda>_. fst (status c)) polls)) \<Longrightarrow> rq_method r \<noteq> ''POST''"
  by (auto dest!: status_reads split: if_splits)

lemma stop_is_not_start: "r \<in> set (fst (stop c)) \<Longrightarrow> r \<notin> set (fst (start c))"
  by (auto dest!: stop_signal start_signal simp: power_body_def)

end

lemma request_Inr:
  assumes "request lib client method endpoint body = Inr req"
  shows "rq_method req = method \<and> rq_body req = body
    \<and> url_JoinPath lib (url_text (baseURL client))
        [''api'', ''client'', ''servers'', serverID client, endpoint] = Inr (rq_url req)
    \<and> rq_headers req = [(''Authorization'', ''Bearer '' @ apiToken client), (''Accept'', ''application/json'')]"
  using assms by (auto simp: request_def split: sum.splits option.splits)

lemma send_power_requests:
  assumes "r \<in> set (fst (send_power lib client signal))"
  shows "rq_method r = ''POST'' \<and> rq_body r = Some (power_body signal)"
  using assms by (auto simp: send_power_def Let_def split: sum.splits dest: request_Inr)

lemma send_power_length: "length (fst (send_power lib client signal)) \<le> 1"
  "snd (send_power lib client signal) = None \<Longrightarrow> length (fst (send_power lib client signal)) = 1"
  by (auto simp: send_power_def Let_def split: sum.splits)

lemmas send_power_once = send_power_length [unfolded One_nat_def]

interpretation pt: controller "Status lib" "Start lib" "Stop lib" for lib
  by unfold_locales (auto simp: Start_def Stop_def send_power_once Status_def
      dest: send_power_requests request_Inr split: sum.splits)

section \<open>Properties\<close>

text \<open>A transport whose panel always answers \<open>answer\<close>, and a client on it.\<close>

definition ex_url :: url where
  "ex_url = \<lparr>Scheme = ''https'', Host = ''panel.example.com'', Hostname = ''panel.example.com'',
             has_User = False, RawQuery = [], Fragment = [], url_text = ''https://panel.example.com''\<rparr>"

definition ex_lib :: "(goerror + http_response) \<Rightarrow> netlib" where
  "ex_lib answer =
     \<lparr>url_Parse = (\<lambda>_. Inr ex_url), url_JoinPath = (\<lambda>b ps. Inr (concat (b # map (\<lambda>p. CHR ''/'' # p) ps))),
      http_NewRequest = (\<lambda>_ _. None), http_Do = (\<lambda>_. answer),
      json_first = (\<lambda>s. Inr (s, [])), json_next = (\<lambda>_. Some EOF), ParseIP = (\<lambda>_. None),
      ResolveUDPAddr = (\<lambda>_. Inr (Some [192, 0, 2, 10])), ResolveTCPAddr = (\<lambda>_. Inr (Some [127, 0, 0, 1]))\<rparr>"

definition ex_client :: pterodactyl_client where
  "ex_client = \<lparr>baseURL = ex_url, apiToken = ''ptlc_secret'', serverID = ''abc-123'',
                client_Timeout = 10 * second, follows_redirects = False\<rparr>"

lemma netlib_foreignD:
  assumes "netlib_foreign lib"
  shows "url_JoinPath lib b ps = Inl e \<Longrightarrow> \<not> IsPermanent (Some e)"
    "http_NewRequest lib m u = Some e \<Longrightarrow> \<not> IsPermanent (Some e)"
    "http_Do lib r = Inl e \<Longrightarrow> \<not> IsPermanent (Some e)"
    "http_Do lib r = Inr resp \<Longrightarrow> read_limited n resp = Inl e \<Longrightarrow> \<not> IsPermanent (Some e)"
  using assms by (auto simp: netlib_foreign_def read_limited_def split: if_splits option.splits
      intro!: foreign_not_permanent)

lemma responseError_permanent:
  "IsPermanent (Some (responseError client operation response)) \<longleftrightarrow>
     400 \<le> StatusCode response \<and> StatusCode response < 500
     \<and> StatusCode response \<noteq> 408 \<and> StatusCode response \<noteq> 429"
  by (auto simp: responseError_def classifyHTTPError_def Let_def split: sum.splits)

lemma request_Inl_not_permanent:
  "netlib_foreign lib \<Longrightarrow> request lib client m ep b = Inl e \<Longrightarrow> \<not> IsPermanent (Some e)"
  by (auto simp: request_def netlib_foreignD split: sum.splits option.splits)

text \<open>
  What a well-formed status answer is: at most 64 KiB holding one JSON value whose
  \<open>attributes.current_state\<close> is one of the four recognised states.
\<close>

definition good_status_body :: "netlib \<Rightarrow> string \<Rightarrow> server_state option" where
  "good_status_body lib body =
     (if length body > 65536 then None
      else case json_first lib body of
             Inl e \<Rightarrow> None
           | Inr (current_state, rest) \<Rightarrow>
               if errors_Is (json_next lib rest) EOF then state_of_string current_state else None)"

lemma Status_2xx:
  assumes "request lib client ''GET'' ''resources'' None = Inr req" "http_Do lib req = Inr resp"
    "200 \<le> StatusCode resp" "StatusCode resp < 300"
  shows "read_limited 65537 resp = Inl e \<Longrightarrow>
      snd (Status lib client) = Inl (Wrap ''read Pterodactyl status'' e)"
    "read_limited 65537 resp = Inr body \<Longrightarrow> good_status_body lib body = Some st \<Longrightarrow>
      snd (Status lib client) = Inr st"
    "read_limited 65537 resp = Inr body \<Longrightarrow> good_status_body lib body = None \<Longrightarrow>
      \<exists>e. snd (Status lib client) = Inl e \<and> IsPermanent (Some e)"
  using assms
  by (auto simp: Status_def good_status_body_def maxPterodactylStatusBody_def
      split: sum.splits option.splits if_splits)

text \<open>
  C26: \<open>Status\<close> sends one GET and answers a state only for a 2xx response whose body (at most
  64 KiB, one JSON value) names one of the four recognised states. Every other outcome is
  an error, and it is permanent exactly for a 4xx status other than 408 and 429 and for a
  2xx response whose readable body is oversized, malformed, trailed or of unknown state;
  transport failures, 5xx, 408, 429, redirects and unreadable bodies stay retryable.
\<close>

theorem Status_classification:
  assumes "netlib_foreign lib" "request lib client ''GET'' ''resources'' None = Inr req"
  shows "fst (Status lib client) = [req]
    \<and> (snd (Status lib client) = Inr st \<longleftrightarrow>
        (\<exists>resp body. http_Do lib req = Inr resp \<and> 200 \<le> StatusCode resp \<and> StatusCode resp < 300
           \<and> read_limited 65537 resp = Inr body \<and> good_status_body lib body = Some st))
    \<and> (\<forall>e. snd (Status lib client) = Inl e \<longrightarrow>
        (IsPermanent (Some e) \<longleftrightarrow>
          (\<exists>resp. http_Do lib req = Inr resp
             \<and> (400 \<le> StatusCode resp \<and> StatusCode resp < 500
                  \<and> StatusCode resp \<noteq> 408 \<and> StatusCode resp \<noteq> 429
                \<or> 200 \<le> StatusCode resp \<and> StatusCode resp < 300
                  \<and> (\<exists>body. read_limited 65537 resp = Inr body \<and> good_status_body lib body = None)))))"
proof (cases "http_Do lib req")
  case (Inl e)
  then show ?thesis using assms netlib_foreignD(3) [OF assms(1) Inl]
    by (auto simp: Status_def sanitizeError_def)
next
  case (Inr resp)
  show ?thesis
  proof (cases "200 \<le> StatusCode resp \<and> StatusCode resp < 300")
    case False
    then have "snd (Status lib client) = Inl (responseError client ''get Pterodactyl status'' resp)"
      using Inr assms(2) by (auto simp: Status_def)
    then show ?thesis using False Inr assms(2)
      by (auto simp: Status_def responseError_permanent)
  next
    case True
    note S = Status_2xx [OF assms(2) Inr]
    have f: "fst (Status lib client) = [req]" using assms(2) by (simp add: Status_def)
    show ?thesis
    proof (cases "read_limited 65537 resp")
      case (Inl e)
      then show ?thesis
        using S(1) [OF _ _ Inl] True f Inr netlib_foreignD(4) [OF assms(1) Inr Inl] by auto
    next
      case rd: (Inr body)
      show ?thesis
      proof (cases "good_status_body lib body")
        case None
        then show ?thesis using S(3) [OF _ _ rd] True f Inr rd by auto
      next
        case (Some st')
        then show ?thesis using S(2) [OF _ _ rd] True f Inr rd by auto
      qed
    qed
  qed
qed

theorem Status_classification_witness:
  "snd (Status (ex_lib (Inr \<lparr>StatusCode = 200, Body = ''running'', Body_err = None\<rparr>)) ex_client)
     = Inr StateRunning"
proof -
  let ?lib = "ex_lib (Inr \<lparr>StatusCode = 200, Body = ''running'', Body_err = None\<rparr>)"
  have f: "netlib_foreign ?lib" by (simp add: netlib_foreign_def ex_lib_def)
  obtain req where r: "request ?lib ex_client ''GET'' ''resources'' None = Inr req"
    by (simp add: request_def ex_lib_def)
  have "(\<exists>resp body. http_Do ?lib req = Inr resp \<and> 200 \<le> StatusCode resp \<and> StatusCode resp < 300
      \<and> read_limited 65537 resp = Inr body \<and> good_status_body ?lib body = Some StateRunning)"
    by (simp add: ex_lib_def read_limited_def good_status_body_def state_of_string_def)
  with Status_classification [OF f r, of StateRunning] show ?thesis by blast
qed

text \<open>The secrets of a constructed client do not interfere with the replacement text.\<close>

lemma safe_char_no_bracket: "\<not> safe_char (CHR ''['')" "\<not> safe_char (CHR '']'')"
  by (simp_all add: safe_char_def)

lemma redacted_text: "''[REDACTED]'' = CHR ''['' # ''REDACTED'' @ [CHR '']'']"
  by simp

lemma ReplaceAll_removes:
  assumes "sec \<noteq> []" "CHR ''['' \<notin> set sec" "CHR '']'' \<notin> set sec" "\<not> sublist sec ''REDACTED''"
  shows "\<not> sublist sec (ReplaceAll s sec ''[REDACTED]'')"
  using assms sublist_join_with [OF _ assms(2,3,4,1)] kept_parts_clean [OF assms(1)]
  unfolding ReplaceAll_join [OF assms(1)] redacted_text by blast

lemma ReplaceAll_keeps_clean:
  assumes "sec \<noteq> []" "CHR ''['' \<notin> set sec" "CHR '']'' \<notin> set sec" "\<not> sublist sec ''REDACTED''"
    "\<not> sublist sec s" "old \<noteq> []"
  shows "\<not> sublist sec (ReplaceAll s old ''[REDACTED]'')"
  using assms sublist_join_with [OF _ assms(2,3,4,1)] kept_parts_sublist sublist_order.order.trans
  unfolding ReplaceAll_join [OF assms(6)] redacted_text by blast

text \<open>
  C28: The excerpt of a panel's error body that reaches an error text contains neither the
  API token nor the server identifier, for every client the constructor accepts, provided
  the token holds no square bracket and neither secret is a piece of the word REDACTED that
  replaces them.
\<close>

theorem sanitize_removes_secrets:
  assumes "NewPterodactylClient lib cfg hc = Inr client"
    "CHR ''['' \<notin> set (pc_APIToken cfg)" "CHR '']'' \<notin> set (pc_APIToken cfg)"
    "\<not> sublist (pc_APIToken cfg) ''REDACTED''" "\<not> sublist (pc_ServerID cfg) ''REDACTED''"
  shows "\<not> sublist (pc_APIToken cfg) (sanitize client message)
       \<and> \<not> sublist (pc_ServerID cfg) (sanitize client message)"
proof -
  have c: "apiToken client = pc_APIToken cfg" "serverID client = pc_ServerID cfg"
    "TrimSpace (pc_APIToken cfg) \<noteq> []" "safeServerID (pc_ServerID cfg)"
    using assms(1) by (auto simp: NewPterodactylClient_def Let_def split: sum.splits if_splits)
  have tok: "pc_APIToken cfg \<noteq> []"
    using c(3) by auto
  have id: "pc_ServerID cfg \<noteq> []" "CHR ''['' \<notin> set (pc_ServerID cfg)" "CHR '']'' \<notin> set (pc_ServerID cfg)"
    using c(4) safe_char_no_bracket by (auto simp: safeServerID_def list_all_iff)
  show ?thesis unfolding sanitize_def c
    using ReplaceAll_keeps_clean [OF tok assms(2-4) ReplaceAll_removes [OF tok assms(2-4)] id(1)]
      ReplaceAll_removes [OF id assms(5)] by blast
qed

definition ex_ptero_config :: pterodactyl_config where
  "ex_ptero_config = \<lparr>pc_BaseURL = ''https://panel.example.com'', pc_APIToken = ''ptlc_secret'',
                      pc_ServerID = ''abc-123''\<rparr>"

lemma ex_client_new: "NewPterodactylClient (ex_lib answer) ex_ptero_config None = Inr ex_client"
  by (simp add: NewPterodactylClient_def ex_lib_def ex_ptero_config_def ex_client_def ex_url_def
      safeServerID_def safe_char_def TrimSpace_def trim_start.simps space_encodings_def go_time)

lemma no_redacted_piece:
  "\<not> sublist ''ptlc_secret'' ''REDACTED''" "\<not> sublist ''abc-123'' ''REDACTED''"
  by (auto dest: set_mono_sublist)

theorem sanitize_removes_secrets_witness:
  "\<not> sublist ''ptlc_secret'' (sanitize ex_client ''bad token ptlc_secret for abc-123'')
   \<and> \<not> sublist ''abc-123'' (sanitize ex_client ''bad token ptlc_secret for abc-123'')"
  using sanitize_removes_secrets [OF ex_client_new, of "''bad token ptlc_secret for abc-123''"]
    no_redacted_piece by (simp add: ex_ptero_config_def)

text \<open>
  C37: The excerpt is cut to 4096 bytes before the secrets are replaced, so a token that
  straddles the cut is only partly there and is not replaced: for every client and every
  token without blanks there is an error body from whose excerpt everything but the last
  character of the token can be read.
\<close>

theorem responseError_leaks_cut_token:
  assumes "apiToken client \<noteq> []" "serverID client \<noteq> []" "length (apiToken client) \<le> 4096"
    "CHR '' '' \<notin> set (apiToken client)" "CHR '' '' \<notin> set (serverID client)"
    "\<not> sublist (serverID client) (butlast (apiToken client))"
  shows "\<exists>pad. responseError client operation
      \<lparr>StatusCode = 500, Body = pad @ apiToken client, Body_err = None\<rparr>
    = ErrHTTP operation 500 (pad @ butlast (apiToken client)) '' (truncated)''"
proof -
  let ?tok = "apiToken client" and ?id = "serverID client"
  let ?pad = "replicate (4097 - length ?tok) (CHR '' '')"
  let ?body = "?pad @ ?tok"
  have len: "length ?body = 4097" using assms(3) by simp
  have cut: "take 4096 ?body = ?pad @ butlast ?tok"
    using assms(1,3) by (cases ?tok) (auto simp: butlast_conv_take)
  have blank: "sublist sec (replicate n (CHR '' '') @ ys) \<Longrightarrow> CHR '' '' \<notin> set sec \<Longrightarrow> sublist sec ys"
    for sec ys n
  proof (induction n)
    case (Suc n)
    then show ?case using sublist_separated [of sec "[]" "CHR '' ''" "replicate n (CHR '' '') @ ys"] by auto
  qed simp
  have "\<not> sublist ?tok (butlast ?tok)"
    using assms(1) sublist_length_le [of ?tok "butlast ?tok"] by (cases ?tok) auto
  then have "\<not> sublist ?tok (?pad @ butlast ?tok)" using blank assms(4) by blast
  moreover have "\<not> sublist ?id (?pad @ butlast ?tok)" using blank assms(5,6) by blast
  ultimately have "sanitize client (take 4096 ?body) = ?pad @ butlast ?tok"
    unfolding cut by (simp add: sanitize_def ReplaceAll_id)
  then have "responseError client operation \<lparr>StatusCode = 500, Body = ?body, Body_err = None\<rparr>
      = ErrHTTP operation 500 (?pad @ butlast ?tok) '' (truncated)''"
    using len by (simp add: responseError_def read_limited_def maxPterodactylErrorBody_def
        classifyHTTPError_def Let_def)
  then show ?thesis by blast
qed

theorem responseError_leaks_cut_token_witness:
  "\<exists>pad. responseError ex_client ''get Pterodactyl status''
      \<lparr>StatusCode = 500, Body = pad @ ''ptlc_secret'', Body_err = None\<rparr>
    = ErrHTTP ''get Pterodactyl status'' 500 (pad @ ''ptlc_secre'') '' (truncated)''"
  using responseError_leaks_cut_token [of ex_client "''get Pterodactyl status''"]
    set_mono_sublist [of "''abc-123''" "''ptlc_secre''"]
  by (auto simp: ex_client_def)

text \<open>
  C27: \<open>Start\<close> and \<open>Stop\<close> send exactly one request when the request can be built: a POST to
  the server's power endpoint with the bearer token and the JSON signal. They succeed
  exactly on a 2xx answer, which includes no redirect, and their error is permanent exactly
  for a 4xx answer other than 408 and 429.
\<close>

theorem power_request_contract:
  assumes "netlib_foreign lib"
    "request lib client ''POST'' ''power'' (Some (power_body signal)) = Inr req"
  shows "\<exists>r. fst (send_power lib client signal) = [r] \<and> rq_method r = ''POST''
       \<and> rq_body r = Some (power_body signal) \<and> rq_url r = rq_url req
       \<and> map_of (rq_headers r) ''Authorization'' = Some (''Bearer '' @ apiToken client)
       \<and> map_of (rq_headers r) ''Content-Type'' = Some ''application/json''
       \<and> (snd (send_power lib client signal) = None \<longleftrightarrow>
            (\<exists>resp. http_Do lib r = Inr resp \<and> 200 \<le> StatusCode resp \<and> StatusCode resp < 300))
       \<and> (IsPermanent (snd (send_power lib client signal)) \<longleftrightarrow>
            (\<exists>resp. http_Do lib r = Inr resp \<and> 400 \<le> StatusCode resp \<and> StatusCode resp < 500
               \<and> StatusCode resp \<noteq> 408 \<and> StatusCode resp \<noteq> 429))"
proof -
  let ?r = "req\<lparr>rq_headers := rq_headers req @ [(''Content-Type'', ''application/json'')]\<rparr>"
  note r = request_Inr [OF assms(2)]
  have p: "send_power lib client signal = ([?r], case http_Do lib ?r of
      Inl e \<Rightarrow> Some (Wrap (''send Pterodactyl '' @ signal @ '' signal'') (sanitizeError e))
    | Inr response \<Rightarrow> if StatusCode response < 200 \<or> StatusCode response \<ge> 300
        then Some (responseError client (''send Pterodactyl '' @ signal @ '' signal'') response) else None)"
    using assms(2) by (simp add: send_power_def Let_def)
  show ?thesis
  proof (intro exI [of _ ?r] conjI)
    show "IsPermanent (snd (send_power lib client signal)) \<longleftrightarrow>
            (\<exists>resp. http_Do lib ?r = Inr resp \<and> 400 \<le> StatusCode resp \<and> StatusCode resp < 500
               \<and> StatusCode resp \<noteq> 408 \<and> StatusCode resp \<noteq> 429)"
      unfolding p using netlib_foreignD(3) [OF assms(1), of ?r]
      by (cases "http_Do lib ?r") (auto simp: sanitizeError_def responseError_permanent)
    show "snd (send_power lib client signal) = None \<longleftrightarrow>
            (\<exists>resp. http_Do lib ?r = Inr resp \<and> 200 \<le> StatusCode resp \<and> StatusCode resp < 300)"
      unfolding p by (cases "http_Do lib ?r") auto
  qed (use r in \<open>simp_all add: p\<close>)
qed

theorem power_request_contract_witness:
  "snd (Stop (ex_lib (Inr \<lparr>StatusCode = 204, Body = [], Body_err = None\<rparr>)) ex_client) = None"
proof -
  let ?lib = "ex_lib (Inr \<lparr>StatusCode = 204, Body = [], Body_err = None\<rparr>)"
  have f: "netlib_foreign ?lib" by (simp add: netlib_foreign_def ex_lib_def)
  obtain req where r: "request ?lib ex_client ''POST'' ''power'' (Some (power_body ''stop'')) = Inr req"
    by (simp add: request_def ex_lib_def)
  from power_request_contract [OF f r] show ?thesis
    unfolding Stop_def by (auto simp: ex_lib_def)
qed

end
