(* ===== verification/Proxy.thy ===== *)
theory Proxy
  imports Store Pterodactyl
begin

text \<open>
  pkg/proxy/proxy.go, first part: the options and the state of \<open>Proxy\<close>, its constructor,
  the startup queues and the forwarding decision. Each definition is one critical section
  of the source (the code between taking and releasing \<open>mu\<close>, with whatever of
  \<open>admissionMu\<close> and \<open>forwardingMu\<close> is held around it) or the composition of a few. Beside
  the fields of \<open>Proxy\<close> the record holds what lives in the runtime: the heap of sessions,
  the pending timers of \<open>time.AfterFunc\<close>, and the goroutines that \<open>startServer\<close> and
  \<open>watchSession\<close> have spawned.
\<close>

record options =
  Listener :: "conn option"
  BackendAddr :: "udp_addr option"
  has_Controller :: bool
  Detector :: "(bytes \<Rightarrow> bool) option"
  has_Readiness :: bool
  MaxSessions :: int
  MaxPacketSize :: int
  IdleTimeout :: duration
  SweepInterval :: duration
  AutoStopDelay :: duration
  AutoStopRetryDelay :: duration
  StartupTimeout :: duration
  StartupPollInterval :: duration
  StartupSettleDelay :: duration
  StartupFailureCooldown :: duration
  StartupBufferPackets :: int
  StartupBufferBytesPerSession :: int
  StartupBufferBytesGlobal :: int

definition maxAutoStopAttempts :: int where "maxAutoStopAttempts = 3"
definition defaultAutoStopRetryDelay :: duration where "defaultAutoStopRetryDelay = 5 * second"
definition defaultStartupFailureCooldown :: duration where "defaultStartupFailureCooldown = 5 * second"
definition backendHealthFailureThreshold :: int where "backendHealthFailureThreshold = 3"

record packetQueue =
  packets :: "bytes list"
  qbytes :: int
  overflowLogged :: bool

text \<open>A pending \<open>time.AfterFunc\<close>: its identity and the arguments its callback captured.\<close>

record timer =
  timer_id :: nat
  timer_generation :: uint64
  timer_attempt :: int
  timer_delay :: duration

record proxy =
  opts :: options
  pstore :: store
  ready_closed :: bool
  ctx_err :: "goerror option"
  backendReady :: bool
  readinessGeneration :: uint64
  backendRunning :: bool
  startupRunning :: bool
  startupGeneration :: uint64
  startupBlockedUntil :: time
  shuttingDown :: bool
  queues :: "(sid, packetQueue) gomap"
  queuedBytes :: int
  stopTimer :: "nat option"
  stopGeneration :: uint64
  lastCapacityWarning :: time
  timerWG :: int
  sess_heap :: heap
  next_sid :: sid
  armed :: "timer list"
  next_timer :: nat
  startups :: "uint64 list"
  watchers :: "(string \<times> sid) list"

section \<open>Construction\<close>

text \<open>Go's division truncates towards zero.\<close>

definition half :: "duration \<Rightarrow> duration" where
  "half d = (if d < 0 then - ((- d) div 2) else d div 2)"

definition default_options :: "options \<Rightarrow> options" where
  "default_options o0 =
     (let o1 = (if SweepInterval o0 \<le> 0 then
                  (let s = half (IdleTimeout o0);
                       s1 = (if s \<le> 0 then nanosecond else s);
                       s2 = (if s1 > 5 * second then 5 * second else s1)
                   in o0\<lparr>SweepInterval := s2\<rparr>)
                else o0);
          o2 = (if AutoStopRetryDelay o1 = 0
                then o1\<lparr>AutoStopRetryDelay := defaultAutoStopRetryDelay\<rparr> else o1)
      in if StartupFailureCooldown o2 = 0
         then o2\<lparr>StartupFailureCooldown := defaultStartupFailureCooldown\<rparr> else o2)"

text \<open>
  What the heap holds at an address that was never allocated: some session. The program
  only reads addresses it has allocated.
\<close>

definition blank_session :: session where
  "blank_session = \<lparr>clientAddr = [], publicConn = 0, maxPacket = 1, lastActivity = 0,
     closed = False, closeOnce = False, ctx_cancelled = False, upstream_open = True,
     upstream_closes = 0, reader_running = True, watcher_running = True, done_closed = False,
     goroutineWG = 2, upstream_sent = [], client_sent = []\<rparr>"

definition New :: "options \<Rightarrow> goerror + proxy" where
  "New o0 =
     (if Listener o0 = None \<or> BackendAddr o0 = None \<or> \<not> has_Controller o0 \<or> Option.is_none (Detector o0) then
        Inl (ErrText ''listener, backend, controller, and detector are required'')
      else
        let o1 = default_options o0
        in if MaxPacketSize o1 < 1 \<or> IdleTimeout o1 \<le> 0 \<or> AutoStopDelay o1 \<le> 0
              \<or> AutoStopRetryDelay o1 < 0 \<or> StartupFailureCooldown o1 < 0 then
             Inl (ErrText ''packet and lifecycle limits must be positive'')
           else if StartupTimeout o1 \<le> 0 \<or> StartupPollInterval o1 \<le> 0
              \<or> StartupPollInterval o1 \<ge> StartupTimeout o1 \<or> StartupSettleDelay o1 < 0 then
             Inl (ErrText ''invalid startup timing'')
           else if StartupBufferPackets o1 < 1 \<or> StartupBufferBytesPerSession o1 < MaxPacketSize o1
              \<or> StartupBufferBytesGlobal o1 < StartupBufferBytesPerSession o1 then
             Inl (ErrText ''startup buffers must hold at least one maximum-size packet per session'')
           else
             (case NewStore (MaxSessions o1) of
                Inl e \<Rightarrow> Inl e
              | Inr st \<Rightarrow>
                  Inr \<lparr>opts = o1, pstore = st, ready_closed = False, ctx_err = None,
                       backendReady = False, readinessGeneration = 0, backendRunning = False,
                       startupRunning = False, startupGeneration = 0,
                       startupBlockedUntil = time_zero, shuttingDown = False, queues = [],
                       queuedBytes = 0, stopTimer = None, stopGeneration = 0,
                       lastCapacityWarning = time_zero, timerWG = 0,
                       sess_heap = (\<lambda>_. blank_session), next_sid = 0, armed = [], next_timer = 0,
                       startups = [], watchers = []\<rparr>))"

section \<open>Startup queues\<close>

definition emptyQueue :: packetQueue where
  "emptyQueue = \<lparr>packets = [], qbytes = 0, overflowLogged = False\<rparr>"

definition enqueueLocked :: "sid \<Rightarrow> bytes \<Rightarrow> proxy \<Rightarrow> proxy" where
  "enqueueLocked active packet p =
     (let q = (case map_of (queues p) active of None \<Rightarrow> emptyQueue | Some q \<Rightarrow> q)
      in if int (length (packets q)) \<ge> StartupBufferPackets (opts p)
            \<or> qbytes q + int (length packet) > StartupBufferBytesPerSession (opts p)
            \<or> queuedBytes p + int (length packet) > StartupBufferBytesGlobal (opts p) then
           p\<lparr>queues := AList.update active (q\<lparr>overflowLogged := True\<rparr>) (queues p)\<rparr>
         else
           p\<lparr>queues := AList.update active
                         (q\<lparr>packets := packets q @ [packet], qbytes := qbytes q + int (length packet)\<rparr>)
                         (queues p),
             queuedBytes := queuedBytes p + int (length packet)\<rparr>)"

definition removeQueue :: "sid \<Rightarrow> proxy \<Rightarrow> proxy" where
  "removeQueue active p =
     (case map_of (queues p) active of
        None \<Rightarrow> p
      | Some q \<Rightarrow> p\<lparr>queues := AList.delete active (queues p), queuedBytes := queuedBytes p - qbytes q\<rparr>)"

text \<open>The loop of \<open>removeClosedQueues\<close> over the queues whose session's done channel is closed.\<close>

fun drop_closed :: "(sid, packetQueue) gomap \<Rightarrow> proxy \<Rightarrow> proxy" where
  "drop_closed [] p = p"
| "drop_closed ((active, q) # rest) p =
     (if done_closed (sess_heap p active) then
        drop_closed rest (p\<lparr>queues := AList.delete active (queues p),
                            queuedBytes := queuedBytes p - qbytes q\<rparr>)
      else drop_closed rest p)"

definition removeClosedQueues :: "proxy \<Rightarrow> proxy" where
  "removeClosedQueues p = drop_closed (queues p) p"

section \<open>Starting, forwarding, queueing\<close>

text \<open>
  \<open>startServer\<close> spawns the goroutine that runs \<open>ensureRunning\<close> for the new generation.
\<close>

definition startServer :: "time \<Rightarrow> proxy \<Rightarrow> proxy" where
  "startServer now p =
     (if shuttingDown p \<or> backendReady p \<or> startupRunning p \<or> time_Before now (startupBlockedUntil p)
      then p
      else
        let generation = startupGeneration p + 1
        in p\<lparr>startupRunning := True, startupGeneration := generation,
             startups := startups p @ [generation]\<rparr>)"

text \<open>
  \<open>forwardOrQueue\<close> with the two clock readings it makes (for the session's activity and in
  \<open>startServer\<close>) and the result of the upstream write.
\<close>

definition forwardOrQueue ::
    "time \<Rightarrow> time \<Rightarrow> goerror option \<Rightarrow> sid \<Rightarrow> bytes \<Rightarrow> proxy \<Rightarrow> bool \<times> proxy" where
  "forwardOrQueue t_act t_start wr active packet p =
     (if \<not> backendReady p then
        (case RecordActivity t_act (sess_heap p active) of
           (Some err, s) \<Rightarrow> (False, p\<lparr>sess_heap := (sess_heap p)(active := s)\<rparr>)
         | (None, s) \<Rightarrow>
             (True, startServer t_start
                      (enqueueLocked active packet (p\<lparr>sess_heap := (sess_heap p)(active := s)\<rparr>))))
      else
        (case ForwardClient t_act wr packet (sess_heap p active) of
           (Some err, s) \<Rightarrow> (False, p\<lparr>sess_heap := (sess_heap p)(active := s)\<rparr>)
         | (None, s) \<Rightarrow> (True, p\<lparr>sess_heap := (sess_heap p)(active := s)\<rparr>)))"

definition shouldLogCapacityWarning :: "time \<Rightarrow> proxy \<Rightarrow> bool \<times> proxy" where
  "shouldLogCapacityWarning now p =
     (if \<not> time_IsZero (lastCapacityWarning p) \<and> time_Sub now (lastCapacityWarning p) < second
      then (False, p)
      else (True, p\<lparr>lastCapacityWarning := now\<rparr>))"

section \<open>The auto-stop timer\<close>

definition stopAutoStopTimerLocked :: "proxy \<Rightarrow> proxy" where
  "stopAutoStopTimerLocked p =
     (case stopTimer p of
        None \<Rightarrow> p
      | Some t \<Rightarrow>
          let p1 = (if t \<in> timer_id ` set (armed p)
                    then p\<lparr>armed := filter (\<lambda>x. timer_id x \<noteq> t) (armed p), timerWG := timerWG p - 1\<rparr>
                    else p)
          in p1\<lparr>stopTimer := None\<rparr>)"

definition scheduleAutoStopAttemptLocked :: "uint64 \<Rightarrow> int \<Rightarrow> duration \<Rightarrow> proxy \<Rightarrow> proxy" where
  "scheduleAutoStopAttemptLocked generation attempt delay p =
     p\<lparr>timerWG := timerWG p + 1, stopTimer := Some (next_timer p), next_timer := next_timer p + 1,
       armed := armed p @ [\<lparr>timer_id = next_timer p, timer_generation = generation,
                            timer_attempt = attempt, timer_delay = delay\<rparr>]\<rparr>"

definition cancelAutoStop :: "proxy \<Rightarrow> proxy" where
  "cancelAutoStop p = stopAutoStopTimerLocked (p\<lparr>stopGeneration := stopGeneration p + 1\<rparr>)"

definition scheduleAutoStop :: "proxy \<Rightarrow> proxy" where
  "scheduleAutoStop p =
     (if shuttingDown p \<or> \<not> backendReady p then p
      else
        let p1 = p\<lparr>stopGeneration := stopGeneration p + 1\<rparr>;
            generation = stopGeneration p1
        in scheduleAutoStopAttemptLocked generation 1 (AutoStopDelay (opts p1)) (stopAutoStopTimerLocked p1))"

definition markBackendNotRunning :: "proxy \<Rightarrow> proxy" where
  "markBackendNotRunning p =
     (let p1 = p\<lparr>backendRunning := False\<rparr>
      in if backendReady p1
         then p1\<lparr>backendReady := False, readinessGeneration := readinessGeneration p1 + 1\<rparr> else p1)"

text \<open>
  \<open>runAutoStopAttempt\<close>: the checks before the stop request, what is done with its result,
  and the whole attempt for a given result. \<open>admissionMu\<close> is held from the first check to
  the end. The first component says whether \<open>Stop\<close> was called.
\<close>

definition autoStopAllowed :: "uint64 \<Rightarrow> proxy \<Rightarrow> bool" where
  "autoStopAllowed generation p \<longleftrightarrow>
     \<not> (Len (pstore p) \<noteq> 0) \<and> \<not> (generation \<noteq> stopGeneration p \<or> \<not> backendReady p)"

definition autoStopResult :: "goerror option \<Rightarrow> uint64 \<Rightarrow> int \<Rightarrow> proxy \<Rightarrow> proxy" where
  "autoStopResult stop_err generation attempt p =
     (case stop_err of
        None \<Rightarrow>
          let p1 = markBackendNotRunning p
          in if generation = stopGeneration p1 then p1\<lparr>stopTimer := None\<rparr> else p1
      | Some err \<Rightarrow>
          if attempt \<ge> maxAutoStopAttempts then
            (if generation = stopGeneration p then p\<lparr>stopTimer := None\<rparr> else p)
          else if generation = stopGeneration p \<and> backendReady p then
            scheduleAutoStopAttemptLocked generation (attempt + 1)
              (wrap64 (AutoStopRetryDelay (opts p) * 2 ^ nat (attempt - 1))) p
          else p)"

definition runAutoStopAttempt :: "goerror option \<Rightarrow> uint64 \<Rightarrow> int \<Rightarrow> proxy \<Rightarrow> bool \<times> proxy" where
  "runAutoStopAttempt stop_err generation attempt p =
     (if autoStopAllowed generation p then (True, autoStopResult stop_err generation attempt p)
      else (False, p))"

lemmas [proxy_defs] = enqueueLocked_def removeQueue_def startServer_def forwardOrQueue_def
  stopAutoStopTimerLocked_def scheduleAutoStopAttemptLocked_def cancelAutoStop_def
  scheduleAutoStop_def markBackendNotRunning_def autoStopResult_def

end
