(* ===== verification/ProxyLifecycle.thy ===== *)
theory ProxyLifecycle
  imports Proxy
begin

text \<open>
  pkg/proxy/proxy.go, second part: the startup gate, \<open>ensureRunning\<close>, the health monitor,
  the sweeper, shutdown, the handler of client packets and \<open>Serve\<close>. Clock readings and the
  results of the network, the controller and the readiness probe are arguments.
\<close>

section \<open>The end of a startup\<close>

definition completeStartup :: "time \<Rightarrow> uint64 \<Rightarrow> proxy \<Rightarrow> bool \<times> proxy" where
  "completeStartup now generation p =
     (if startupGeneration p \<noteq> generation then (False, p)
      else
        let p1 = p\<lparr>startupRunning := False\<rparr>
        in (\<not> shuttingDown p1 \<and> \<not> backendReady p1 \<and> gm_len (queues p1) > 0
              \<and> \<not> time_Before now (startupBlockedUntil p1), p1))"

definition finishStartup :: "time \<Rightarrow> time \<Rightarrow> uint64 \<Rightarrow> proxy \<Rightarrow> proxy" where
  "finishStartup now now' generation p =
     (case completeStartup now generation p of
        (True, p1) \<Rightarrow> startServer now' p1
      | (False, p1) \<Rightarrow> p1)"

text \<open>
  The operations that close every session do it after releasing \<open>mu\<close>, still under
  \<open>admissionMu\<close> and \<open>forwardingMu\<close>; what they do under \<open>mu\<close> is a definition of its own.
\<close>

definition closeAllSessions :: "proxy \<Rightarrow> proxy" where
  "closeAllSessions p =
     (let (err, st, h) = CloseAll (pstore p) (sess_heap p) in p\<lparr>pstore := st, sess_heap := h\<rparr>)"

definition failStartup_locked :: "time \<Rightarrow> uint64 \<Rightarrow> bool \<Rightarrow> proxy \<Rightarrow> proxy" where
  "failStartup_locked now generation permanent p =
     (let p1 = p\<lparr>queues := [], queuedBytes := 0\<rparr>
      in if startupGeneration p1 = generation then
           (let p2 = p1\<lparr>startupRunning := False, backendRunning := False\<rparr>
            in if permanent
               then p2\<lparr>startupBlockedUntil := time_Add now (StartupFailureCooldown (opts p2))\<rparr>
               else p2)
         else p1)"

definition failStartup :: "time \<Rightarrow> uint64 \<Rightarrow> bool \<Rightarrow> proxy \<Rightarrow> proxy" where
  "failStartup now generation permanent p =
     closeAllSessions (failStartup_locked now generation permanent p)"

section \<open>Opening the gate\<close>

text \<open>
  Flushing one session's queue: forward its packets in order, stop at the first error.
  \<open>tm i\<close> and \<open>wr i\<close> are the clock and the write result of the \<open>i\<close>-th packet.
\<close>

fun flush_packets ::
    "(nat \<Rightarrow> time) \<Rightarrow> (nat \<Rightarrow> goerror option) \<Rightarrow> nat \<Rightarrow> bytes list \<Rightarrow> session \<Rightarrow> session" where
  "flush_packets tm wr i [] s = s"
| "flush_packets tm wr i (packet # rest) s =
     (case ForwardClient (tm i) (wr i) packet s of
        (Some err, s1) \<Rightarrow> s1
      | (None, s1) \<Rightarrow> flush_packets tm wr (i + 1) rest s1)"

fun flush_queues ::
    "(sid \<Rightarrow> nat \<Rightarrow> time) \<Rightarrow> (sid \<Rightarrow> nat \<Rightarrow> goerror option) \<Rightarrow> (sid, packetQueue) gomap \<Rightarrow> heap \<Rightarrow> heap" where
  "flush_queues tm wr [] h = h"
| "flush_queues tm wr ((active, q) # rest) h =
     flush_queues tm wr rest (h(active := flush_packets (tm active) (wr active) 0 (packets q) (h active)))"

text \<open>Under \<open>mu\<close>: the first component says whether the gate was opened.\<close>

definition openStartupGate_locked ::
    "(sid \<Rightarrow> nat \<Rightarrow> time) \<Rightarrow> (sid \<Rightarrow> nat \<Rightarrow> goerror option) \<Rightarrow> proxy \<Rightarrow> bool \<times> proxy" where
  "openStartupGate_locked tm wr p =
     (if shuttingDown p then (False, p)
      else
        let p1 = p\<lparr>backendRunning := True\<rparr>;
            p2 = p1\<lparr>sess_heap := flush_queues tm wr (queues p1) (sess_heap p1)\<rparr>;
            p3 = p2\<lparr>queues := [], queuedBytes := 0\<rparr>
        in (True, if \<not> backendReady p3
                  then p3\<lparr>backendReady := True, readinessGeneration := readinessGeneration p3 + 1\<rparr>
                  else p3))"

definition openStartupGate ::
    "(sid \<Rightarrow> nat \<Rightarrow> time) \<Rightarrow> (sid \<Rightarrow> nat \<Rightarrow> goerror option) \<Rightarrow> proxy \<Rightarrow> proxy" where
  "openStartupGate tm wr p =
     (case openStartupGate_locked tm wr p of
        (False, p1) \<Rightarrow> p1
      | (True, p1) \<Rightarrow> if Len (pstore p1) = 0 then scheduleAutoStop p1 else p1)"

section \<open>\<open>ensureRunning\<close>\<close>

text \<open>
  What one iteration of the polling loop meets: the answer of \<open>Status\<close>, of \<open>Start\<close> if it
  is called, of \<open>WaitReady\<close> and of \<open>Probe\<close> if there is a readiness check, whether the
  context ends during the settle delay, and whether it ends while waiting for the next tick;
  and the clock and write results if the gate opens.
\<close>

record poll =
  po_status :: "goerror + server_state"
  po_start :: "goerror option"
  po_wait :: "goerror option"
  po_settle :: "goerror option"
  po_probe :: "goerror option"
  po_tick :: "goerror option"
  po_tm :: "sid \<Rightarrow> nat \<Rightarrow> time"
  po_wr :: "sid \<Rightarrow> nat \<Rightarrow> goerror option"

text \<open>The calls an iteration makes on the controller and the readiness probe, in order.\<close>

datatype ctl_call =
    CallStatus "goerror + server_state"
  | CallStart "goerror option"
  | CallWaitReady "goerror option"
  | CallProbe "goerror option"

text \<open>
  An iteration returns from the function with an error option, or goes on with the new
  value of \<open>startSent\<close>.
\<close>

datatype poll_outcome = Returned "goerror option" | Continue bool

definition running_branch :: "poll \<Rightarrow> proxy \<Rightarrow> poll_outcome \<times> proxy \<times> ctl_call list" where
  "running_branch r p =
     (let p1 = p\<lparr>backendRunning := True\<rparr>;
          waited = (if has_Readiness (opts p1) then [CallWaitReady (po_wait r)] else [])
      in if has_Readiness (opts p1) \<and> po_wait r \<noteq> None then
           (Returned (map_option (Wrap ''wait for Palworld application readiness'') (po_wait r)), p1, waited)
         else if StartupSettleDelay (opts p1) > 0 \<and> po_settle r \<noteq> None then
           (Returned (po_settle r), p1, waited)
         else if has_Readiness (opts p1) \<and> po_probe r \<noteq> None then
           (Returned (map_option (Wrap ''recheck Palworld application readiness after settle'') (po_probe r)),
            p1, waited @ [CallProbe (po_probe r)])
         else
           (Returned None, openStartupGate (po_tm r) (po_wr r) p1,
            waited @ (if has_Readiness (opts p1) then [CallProbe None] else [])))"

definition offline_branch :: "poll \<Rightarrow> bool \<Rightarrow> proxy \<Rightarrow> poll_outcome \<times> proxy \<times> ctl_call list" where
  "offline_branch r startSent p =
     (let p1 = markBackendNotRunning p
      in if \<not> startSent then
           (if po_start r \<noteq> None \<and> IsPermanent (po_start r) then
              (Returned (map_option (Wrap ''start Pterodactyl server'') (po_start r)), p1,
               [CallStart (po_start r)])
            else (Continue True, p1, [CallStart (po_start r)]))
         else (Continue startSent, p1, []))"

definition ensureRunning_poll ::
    "poll \<Rightarrow> bool \<Rightarrow> proxy \<Rightarrow> poll_outcome \<times> proxy \<times> ctl_call list" where
  "ensureRunning_poll r startSent p =
     (let (out, p1, calls) =
            (case po_status r of
               Inr StateRunning \<Rightarrow> running_branch r p
             | Inr StateOffline \<Rightarrow> offline_branch r startSent p
             | Inr StateStarting \<Rightarrow> (Continue True, markBackendNotRunning p, [])
             | Inr StateStopping \<Rightarrow> (Continue False, markBackendNotRunning p, [])
             | Inl err \<Rightarrow>
                 if IsPermanent (Some err) then
                   (Returned (Some (Wrap ''query Pterodactyl status'' err)), p, [])
                 else (Continue startSent, p, []));
          calls1 = CallStatus (po_status r) # calls
      in case out of
           Returned res \<Rightarrow> (Returned res, p1, calls1)
         | Continue sent \<Rightarrow>
             (case po_tick r of
                Some e \<Rightarrow> (Returned (Some (Wrap ''wait for Pterodactyl running'' e)), p1, calls1)
              | None \<Rightarrow> (Continue sent, p1, calls1)))"

text \<open>The loop over what its iterations meet; \<open>None\<close> while it has not returned.\<close>

fun ensureRunning_loop ::
    "poll list \<Rightarrow> bool \<Rightarrow> proxy \<Rightarrow> goerror option option \<times> proxy \<times> ctl_call list" where
  "ensureRunning_loop [] startSent p = (None, p, [])"
| "ensureRunning_loop (r # rs) startSent p =
     (case ensureRunning_poll r startSent p of
        (Returned res, p1, calls) \<Rightarrow> (Some res, p1, calls)
      | (Continue sent, p1, calls) \<Rightarrow>
          (let (res, p2, more) = ensureRunning_loop rs sent p1 in (res, p2, calls @ more)))"

definition ensureRunning :: "poll list \<Rightarrow> proxy \<Rightarrow> goerror option option \<times> proxy \<times> ctl_call list" where
  "ensureRunning rs p = ensureRunning_loop rs False p"

text \<open>
  The goroutine of \<open>startServer\<close> after \<open>ensureRunning\<close> returned \<open>err\<close>: the failure path
  unless the proxy's context is done, otherwise \<open>finishStartup\<close>; it leaves the list of
  running startups.
\<close>

definition startup_goroutine_end ::
    "time \<Rightarrow> time \<Rightarrow> goerror option \<Rightarrow> uint64 \<Rightarrow> proxy \<Rightarrow> proxy" where
  "startup_goroutine_end now now' err generation p =
     (let p1 = (if err \<noteq> None \<and> ctx_err p = None then failStartup now generation (IsPermanent err) p
                else finishStartup now now' generation p)
      in p1\<lparr>startups := remove1 generation (startups p1)\<rparr>)"

section \<open>The sweeper\<close>

fun refresh_each :: "(sid \<Rightarrow> time) \<Rightarrow> sid list \<Rightarrow> heap \<Rightarrow> heap" where
  "refresh_each tm [] h = h"
| "refresh_each tm (active # rest) h =
     refresh_each tm rest (h(active := snd (RecordActivity (tm active) (h active))))"

definition refreshPendingSessions :: "(sid \<Rightarrow> time) \<Rightarrow> proxy \<Rightarrow> proxy" where
  "refreshPendingSessions tm p = p\<lparr>sess_heap := refresh_each tm (map fst (queues p)) (sess_heap p)\<rparr>"

definition expireIdleSessions :: "(sid \<Rightarrow> time) \<Rightarrow> time \<Rightarrow> proxy \<Rightarrow> proxy" where
  "expireIdleSessions tm now p =
     (let p1 = refreshPendingSessions tm p;
          ((expired, remaining, err), st, h) =
            ExpireIdle (time_Add now (- IdleTimeout (opts p1))) (pstore p1) (sess_heap p1);
          p2 = p1\<lparr>pstore := st, sess_heap := h\<rparr>;
          p3 = (if expired > 0 then removeClosedQueues p2 else p2)
      in if expired > 0 \<and> remaining = 0 then scheduleAutoStop p3 else p3)"

section \<open>The health monitor\<close>

record backendHealthFailures =
  hf_generation :: uint64
  hf_count :: int

definition hf_zero :: backendHealthFailures where
  "hf_zero = \<lparr>hf_generation = 0, hf_count = 0\<rparr>"

definition hf_reset :: "backendHealthFailures \<Rightarrow> backendHealthFailures" where
  "hf_reset failures = failures\<lparr>hf_generation := 0, hf_count := 0\<rparr>"

definition hf_record :: "uint64 \<Rightarrow> backendHealthFailures \<Rightarrow> int \<times> backendHealthFailures" where
  "hf_record generation failures =
     (let f1 = (if hf_generation failures \<noteq> generation
                then failures\<lparr>hf_generation := generation, hf_count := 0\<rparr> else failures);
          f2 = f1\<lparr>hf_count := hf_count f1 + 1\<rparr>
      in (hf_count f2, f2))"

definition closeBackendGate_locked :: "uint64 \<Rightarrow> proxy \<Rightarrow> bool \<times> proxy" where
  "closeBackendGate_locked generation p =
     (if \<not> backendReady p \<or> readinessGeneration p \<noteq> generation then (False, p)
      else
        let p1 = p\<lparr>backendReady := False, backendRunning := False,
                   readinessGeneration := readinessGeneration p + 1,
                   stopGeneration := stopGeneration p + 1\<rparr>
        in (True, (stopAutoStopTimerLocked p1)\<lparr>queues := [], queuedBytes := 0\<rparr>))"

definition closeBackendGate :: "uint64 \<Rightarrow> proxy \<Rightarrow> proxy" where
  "closeBackendGate generation p =
     (case closeBackendGate_locked generation p of
        (False, p1) \<Rightarrow> p1
      | (True, p1) \<Rightarrow> closeAllSessions p1)"

text \<open>
  One tick of \<open>runBackendHealthMonitor\<close>. First it samples the state; a closed gate resets
  the count and skips the probe.
\<close>

definition monitor_sample ::
    "backendHealthFailures \<Rightarrow> proxy \<Rightarrow> uint64 option \<times> backendHealthFailures" where
  "monitor_sample failures p =
     (if \<not> backendReady p then (None, hf_reset failures)
      else (Some (readinessGeneration p), failures))"

text \<open>
  Then, after the probe answered \<open>err\<close>, it evaluates the answer against the state it finds;
  the first component is the decision to close the gate of that generation.
\<close>

definition monitor_evaluate ::
    "uint64 \<Rightarrow> goerror option \<Rightarrow> backendHealthFailures \<Rightarrow> proxy \<Rightarrow> bool \<times> backendHealthFailures" where
  "monitor_evaluate generation err failures p =
     (if \<not> (backendReady p \<and> readinessGeneration p = generation) then (False, hf_reset failures)
      else if err = None then (False, hf_reset failures)
      else if backendReadinessInconclusive err then (False, hf_reset failures)
      else
        let (failureCount, f1) = hf_record generation failures
        in if failureCount < backendHealthFailureThreshold then (False, f1)
           else (True, hf_reset f1))"

text \<open>
  The loop over its ticks: the state each tick samples, the answer of the probe, and the
  state it evaluates the answer against, between which anything may have run. The result is
  each tick's decision: the generation whose gate it closes, or nothing. The loop ends when
  the context is done.
\<close>

fun runBackendHealthMonitor ::
    "(proxy \<times> goerror option \<times> proxy) list \<Rightarrow> backendHealthFailures \<Rightarrow> uint64 option list" where
  "runBackendHealthMonitor [] failures = []"
| "runBackendHealthMonitor ((sampled, err, found) # ticks) failures =
     (case monitor_sample failures sampled of
        (None, f1) \<Rightarrow> None # runBackendHealthMonitor ticks f1
      | (Some generation, f1) \<Rightarrow>
          if ctx_err found \<noteq> None then []
          else (case monitor_evaluate generation err f1 found of
                  (close, f2) \<Rightarrow> (if close then Some generation else None) # runBackendHealthMonitor ticks f2))"

section \<open>Shutdown\<close>

definition shutdown_locked :: "proxy \<Rightarrow> proxy" where
  "shutdown_locked p =
     (let p1 = p\<lparr>shuttingDown := True\<rparr>;
          p2 = (if backendReady p1
                then p1\<lparr>backendReady := False, readinessGeneration := readinessGeneration p1 + 1\<rparr> else p1);
          p3 = p2\<lparr>backendRunning := False, startupRunning := False,
                  startupGeneration := startupGeneration p2 + 1,
                  stopGeneration := stopGeneration p2 + 1\<rparr>
      in stopAutoStopTimerLocked p3)"

definition shutdown :: "proxy \<Rightarrow> proxy" where
  "shutdown p = closeAllSessions (shutdown_locked p)"

section \<open>Sessions that end by themselves\<close>

text \<open>\<open>watchSession\<close> spawns a goroutine; its body runs once the session is done.\<close>

definition watchSession :: "string \<Rightarrow> sid \<Rightarrow> proxy \<Rightarrow> proxy" where
  "watchSession key active p = p\<lparr>watchers := watchers p @ [(key, active)]\<rparr>"

definition watch_remove :: "string \<Rightarrow> sid \<Rightarrow> proxy \<Rightarrow> (bool \<times> int) \<times> proxy" where
  "watch_remove key active p =
     (let ((removed, remaining, err), st, h) = Remove key active (pstore p) (sess_heap p)
      in ((removed, remaining), p\<lparr>pstore := st, sess_heap := h\<rparr>))"

definition watchSession_body :: "string \<Rightarrow> sid \<Rightarrow> proxy \<Rightarrow> proxy" where
  "watchSession_body key active p =
     (let ((removed, remaining), p1) = watch_remove key active p;
          p2 = removeQueue active p1
      in if removed \<and> remaining = 0 \<and> ctx_err p2 = None then scheduleAutoStop p2 else p2)"

section \<open>Client packets\<close>

text \<open>
  What the handler of one packet meets: the clock readings and write results of its three
  attempts to forward, the clock at the cooldown check, at the creation of a session, at
  the capacity warning and at \<open>startServer\<close>, and the result of dialling the backend.
\<close>

record packet_env =
  pe_now :: "nat \<Rightarrow> time"
  pe_start :: "nat \<Rightarrow> time"
  pe_wr :: "nat \<Rightarrow> goerror option"
  pe_gate_now :: time
  pe_create_now :: time
  pe_dial :: "udp_addr \<Rightarrow> goerror option"
  pe_warn_now :: time
  pe_start_now :: time

text \<open>Attempt \<open>i\<close> to hand the packet to a session the store already has.\<close>

definition try_existing ::
    "packet_env \<Rightarrow> nat \<Rightarrow> string \<Rightarrow> bytes \<Rightarrow> proxy \<Rightarrow> bool \<times> sid option \<times> proxy" where
  "try_existing env i key packet p =
     (case Get key (pstore p) of
        None \<Rightarrow> (False, None, p)
      | Some existing \<Rightarrow>
          (case forwardOrQueue (pe_now env i) (pe_start env i) (pe_wr env i) existing packet p of
             (True, p1) \<Rightarrow> (True, Some existing, p1)
           | (False, p1) \<Rightarrow> (False, Some existing, p1)))"

definition drop_stale :: "string \<Rightarrow> sid \<Rightarrow> proxy \<Rightarrow> proxy" where
  "drop_stale key existing p =
     (let (r, st, h) = Remove key existing (pstore p) (sess_heap p)
      in removeQueue existing (p\<lparr>pstore := st, sess_heap := h\<rparr>))"

text \<open>The factory the handler passes to \<open>GetOrCreate\<close>: \<open>NewSession\<close> at a fresh address.\<close>

definition session_factory ::
    "packet_env \<Rightarrow> udp_addr \<Rightarrow> proxy \<Rightarrow> heap \<Rightarrow> (sid option \<times> goerror option) \<times> heap" where
  "session_factory env clientAddress p h =
     (case NewSession (pe_dial env) (pe_create_now env)
             \<lparr>so_ClientAddr = Some clientAddress, so_BackendAddr = BackendAddr (opts p),
              so_PublicConn = Listener (opts p), so_MaxPacketSize = MaxPacketSize (opts p)\<rparr> of
        Inl e \<Rightarrow> ((None, Some e), h)
      | Inr s \<Rightarrow> ((Some (next_sid p), None), h(next_sid p := s)))"

text \<open>
  The part of the handler after the existing session was ruled out, under \<open>admissionMu\<close>:
  read the gate, ask the detector, create the session, deliver, start the server.
\<close>

definition admit :: "packet_env \<Rightarrow> udp_addr \<Rightarrow> bytes \<Rightarrow> proxy \<Rightarrow> proxy" where
  "admit env key packet p =
     (let ready = backendReady p;
          running = backendRunning p;
          startupBlocked = time_Before (pe_gate_now env) (startupBlockedUntil p)
      in if startupBlocked then p
         else if \<not> ready \<and> \<not> running \<and> \<not> (case Detector (opts p) of None \<Rightarrow> False | Some d \<Rightarrow> d packet) then p
         else
           (case GetOrCreate key (session_factory env key p) (pstore p) (sess_heap p) of
              ((sess, created, activeCount, Some err), st, h) \<Rightarrow>
                (let p1 = p\<lparr>pstore := st, sess_heap := h\<rparr>
                 in if errors_Is (Some err) ErrSessionCapacity
                    then snd (shouldLogCapacityWarning (pe_warn_now env) p1) else p1)
            | ((sess, created, activeCount, None), st, h) \<Rightarrow>
                (case sess of
                   None \<Rightarrow> p
                 | Some v \<Rightarrow>
                     let p1 = p\<lparr>pstore := st, sess_heap := h,
                                next_sid := (if created then next_sid p + 1 else next_sid p)\<rparr>;
                         p2 = (if created then watchSession key v (cancelAutoStop p1) else p1);
                         p3 = snd (forwardOrQueue (pe_now env 2) (pe_start env 2) (pe_wr env 2) v packet p2)
                     in if \<not> ready then startServer (pe_start_now env) p3 else p3)))"

definition handleClientPacket :: "packet_env \<Rightarrow> udp_addr \<Rightarrow> bytes \<Rightarrow> proxy \<Rightarrow> proxy" where
  "handleClientPacket env key packet p =
     (if length packet = 0 then p
      else
        (case try_existing env 0 key packet p of
           (True, _, p1) \<Rightarrow> p1
         | (False, _, p1) \<Rightarrow>
             (case try_existing env 1 key packet p1 of
                (True, _, p2) \<Rightarrow> p2
              | (False, Some existing, p2) \<Rightarrow> admit env key packet (drop_stale key existing p2)
              | (False, None, p2) \<Rightarrow> admit env key packet p2)))"

section \<open>\<open>Serve\<close>\<close>

text \<open>
  Before its loop: store the context, publish readiness, ask for the state once, adopt a
  running backend. \<open>ctxe\<close> is the state of the context \<open>Serve\<close> was given.
\<close>

definition Serve_begin ::
    "goerror option \<Rightarrow> time \<Rightarrow> (goerror + server_state) \<Rightarrow> proxy \<Rightarrow> proxy" where
  "Serve_begin ctxe now status p =
     (let p1 = p\<lparr>ctx_err := ctxe, ready_closed := True\<rparr>
      in if status = Inr StateRunning then
           (let p2 = p1\<lparr>backendRunning := True, backendReady := \<not> has_Readiness (opts p1)\<rparr>;
                p3 = (if backendReady p2 then p2\<lparr>readinessGeneration := readinessGeneration p2 + 1\<rparr> else p2)
            in if has_Readiness (opts p3) then startServer now p3 else p3)
         else p1)"

text \<open>One read of the listener: an error, or a datagram with its truncation flag and sender.\<close>

datatype listener_read = LErr goerror | LMsg udp_addr bytes bool

text \<open>
  An iteration of the loop goes on, leaves the loop, or returns an error.
\<close>

datatype serve_outcome = ServeOn | ServeBreak | ServeFail goerror

definition Serve_iteration ::
    "packet_env \<Rightarrow> listener_read \<Rightarrow> proxy \<Rightarrow> serve_outcome \<times> proxy" where
  "Serve_iteration env r p =
     (case r of
        LErr readErr \<Rightarrow>
          (if ctx_err p \<noteq> None \<or> errors_Is (Some readErr) ErrNetClosed then ServeBreak
           else ServeFail (Wrap ''read public UDP packet'' readErr), p)
      | LMsg clientAddress packet trunc \<Rightarrow>
          if trunc then (ServeOn, p) else (ServeOn, handleClientPacket env clientAddress packet p))"

end
