(* ===== verification/ProxyInv.thy ===== *)
theory ProxyInv
  imports ProxyLifecycle
begin

text \<open>
  The proxy's data invariants: bounded startup queues with exact byte accounting, a gate
  that is open only over empty queues, a well-formed store, and the bookkeeping of the
  auto-stop timer. Every operation of Proxy and ProxyLifecycle keeps them.
\<close>

section \<open>The invariant\<close>

definition opts_ok :: "options \<Rightarrow> bool" where
  "opts_ok o' \<longleftrightarrow> Listener o' \<noteq> None \<and> BackendAddr o' \<noteq> None \<and> Detector o' \<noteq> None
     \<and> 1 \<le> MaxPacketSize o' \<and> 0 < IdleTimeout o' \<and> 0 < SweepInterval o'
     \<and> 0 < AutoStopDelay o' \<and> 0 < AutoStopRetryDelay o' \<and> 0 < StartupFailureCooldown o'
     \<and> 0 < StartupPollInterval o' \<and> StartupPollInterval o' < StartupTimeout o'
     \<and> 0 \<le> StartupSettleDelay o' \<and> 1 \<le> StartupBufferPackets o'
     \<and> MaxPacketSize o' \<le> StartupBufferBytesPerSession o'
     \<and> StartupBufferBytesPerSession o' \<le> StartupBufferBytesGlobal o'"

definition queue_bytes :: "bytes list \<Rightarrow> int" where
  "queue_bytes ps = (\<Sum>d\<leftarrow>ps. int (length d))"

definition queue_ok :: "options \<Rightarrow> packetQueue \<Rightarrow> bool" where
  "queue_ok o' q \<longleftrightarrow> qbytes q = queue_bytes (packets q)
     \<and> qbytes q \<le> StartupBufferBytesPerSession o'
     \<and> int (length (packets q)) \<le> StartupBufferPackets o'"

definition total_bytes :: "(sid, packetQueue) gomap \<Rightarrow> int" where
  "total_bytes m = (\<Sum>e\<leftarrow>m. qbytes (snd e))"

definition queue_inv :: "proxy \<Rightarrow> bool" where
  "queue_inv p \<longleftrightarrow> gm_wf (queues p) \<and> (\<forall>e \<in> set (queues p). queue_ok (opts p) (snd e))
     \<and> queuedBytes p = total_bytes (queues p) \<and> queuedBytes p \<le> StartupBufferBytesGlobal (opts p)
     \<and> (backendReady p \<longrightarrow> queues p = [])"

text \<open>Sessions live below the allocation mark.\<close>

definition alloc_inv :: "proxy \<Rightarrow> bool" where
  "alloc_inv p \<longleftrightarrow> (\<forall>e \<in> set (sessions (pstore p)). snd e < next_sid p)
     \<and> (\<forall>e \<in> set (queues p). fst e < next_sid p)
     \<and> (\<forall>e \<in> set (watchers p). snd e < next_sid p)"

definition timer_ok :: "timer \<Rightarrow> bool" where
  "timer_ok t \<longleftrightarrow> 1 \<le> timer_attempt t \<and> timer_attempt t \<le> maxAutoStopAttempts"

text \<open>With \<open>k\<close> callbacks running: the wait group counts armed timers and callbacks.\<close>

definition timer_inv :: "int \<Rightarrow> proxy \<Rightarrow> bool" where
  "timer_inv k p \<longleftrightarrow> distinct (map timer_id (armed p))
     \<and> (\<forall>t \<in> set (armed p). timer_id t < next_timer p \<and> timer_ok t)
     \<and> timerWG p = int (length (armed p)) + k"

definition gate_inv :: "proxy \<Rightarrow> bool" where
  "gate_inv p \<longleftrightarrow> (shuttingDown p \<longrightarrow> \<not> backendReady p) \<and> (shuttingDown p \<longrightarrow> \<not> startupRunning p)"

definition proxy_inv :: "int \<Rightarrow> proxy \<Rightarrow> bool" where
  "proxy_inv k p \<longleftrightarrow> opts_ok (opts p) \<and> store_ok (pstore p) (sess_heap p) \<and> queue_inv p
     \<and> alloc_inv p \<and> timer_inv k p \<and> gate_inv p"

lemmas proxy_inv_parts = proxy_inv_def queue_inv_def alloc_inv_def timer_inv_def gate_inv_def

lemma proxy_invD:
  assumes "proxy_inv k p"
  shows "opts_ok (opts p)" "store_ok (pstore p) (sess_heap p)" "queue_inv p" "alloc_inv p"
    "timer_inv k p" "gate_inv p" "store_inv (pstore p)" "heap_inv (sess_heap p)"
    "sess_inv (sess_heap p v)"
  using assms by (auto simp: proxy_inv_def store_ok_def heap_invD)

lemma queue_inv_empty:
  "opts_ok (opts p) \<Longrightarrow> queues p = [] \<Longrightarrow> queuedBytes p = 0 \<Longrightarrow> queue_inv p"
  by (simp add: queue_inv_def opts_ok_def total_bytes_def)

section \<open>Construction\<close>

lemma half_pos: "0 \<le> d \<Longrightarrow> half d = d div 2"
  by (simp add: half_def)

lemma default_options_eq:
  "MaxPacketSize (default_options o') = MaxPacketSize o'"
  "IdleTimeout (default_options o') = IdleTimeout o'"
  "AutoStopDelay (default_options o') = AutoStopDelay o'"
  "StartupTimeout (default_options o') = StartupTimeout o'"
  "StartupPollInterval (default_options o') = StartupPollInterval o'"
  "StartupSettleDelay (default_options o') = StartupSettleDelay o'"
  "StartupBufferPackets (default_options o') = StartupBufferPackets o'"
  "StartupBufferBytesPerSession (default_options o') = StartupBufferBytesPerSession o'"
  "StartupBufferBytesGlobal (default_options o') = StartupBufferBytesGlobal o'"
  "MaxSessions (default_options o') = MaxSessions o'"
  "Listener (default_options o') = Listener o'"
  "BackendAddr (default_options o') = BackendAddr o'"
  "has_Readiness (default_options o') = has_Readiness o'"
  "Detector (default_options o') = Detector o'"
  by (simp_all add: default_options_def Let_def)

lemma default_options_sweep:
  "SweepInterval (default_options o') =
     (if SweepInterval o' \<le> 0
      then (let s = half (IdleTimeout o') in if s \<le> 0 then 1 else min s (5 * second))
      else SweepInterval o')"
  by (auto simp: default_options_def Let_def min_def go_time)

lemma default_options_retry:
  "AutoStopRetryDelay (default_options o') =
     (if AutoStopRetryDelay o' = 0 then defaultAutoStopRetryDelay else AutoStopRetryDelay o')"
  "StartupFailureCooldown (default_options o') =
     (if StartupFailureCooldown o' = 0 then defaultStartupFailureCooldown else StartupFailureCooldown o')"
  by (simp_all add: default_options_def Let_def)

lemma default_sweep_pos: "0 < SweepInterval (default_options o')"
  by (auto simp: default_options_sweep Let_def go_time)

text \<open>What \<open>New\<close> accepts, and the proxy it builds.\<close>

definition New_accepts :: "options \<Rightarrow> bool" where
  "New_accepts o' \<longleftrightarrow> Listener o' \<noteq> None \<and> BackendAddr o' \<noteq> None \<and> has_Controller o' \<and> Detector o' \<noteq> None
     \<and> 1 \<le> MaxPacketSize o' \<and> 0 < IdleTimeout o' \<and> 0 < AutoStopDelay o'
     \<and> 0 \<le> AutoStopRetryDelay o' \<and> 0 \<le> StartupFailureCooldown o'
     \<and> 0 < StartupPollInterval o' \<and> StartupPollInterval o' < StartupTimeout o'
     \<and> 0 \<le> StartupSettleDelay o' \<and> 1 \<le> StartupBufferPackets o'
     \<and> MaxPacketSize o' \<le> StartupBufferBytesPerSession o'
     \<and> StartupBufferBytesPerSession o' \<le> StartupBufferBytesGlobal o' \<and> 1 \<le> MaxSessions o'"

lemma sess_inv_blank [simp]: "sess_inv blank_session"
  by (simp add: sess_inv_def blank_session_def)

lemma New_cases:
  "if New_accepts o' then \<exists>p. New o' = Inr p \<and> opts p = default_options o'
        \<and> pstore p = \<lparr>store_max = MaxSessions o', sessions = []\<rparr> \<and> queues p = [] \<and> queuedBytes p = 0
        \<and> armed p = [] \<and> timerWG p = 0 \<and> watchers p = [] \<and> startups p = [] \<and> stopTimer p = None
        \<and> \<not> backendReady p \<and> \<not> backendRunning p \<and> \<not> startupRunning p \<and> \<not> shuttingDown p
        \<and> startupBlockedUntil p = time_zero \<and> ctx_err p = None \<and> sess_heap p = (\<lambda>_. blank_session)
        \<and> next_sid p = 0
   else \<exists>e. New o' = Inl e"
proof (cases "New_accepts o'")
  case True
  then show ?thesis
    by (simp add: New_accepts_def New_def Let_def default_options_eq default_options_retry
        NewStore_def Option.is_none_def defaultAutoStopRetryDelay_def
        defaultStartupFailureCooldown_def go_time)
next
  case False
  then show ?thesis
    by (auto simp: New_accepts_def New_def Let_def default_options_eq default_options_retry
        NewStore_def Option.is_none_def defaultAutoStopRetryDelay_def
        defaultStartupFailureCooldown_def go_time)
qed

lemma opts_ok_default: "New_accepts o' \<Longrightarrow> opts_ok (default_options o')"
  using default_sweep_pos [of o']
  by (auto simp: New_accepts_def opts_ok_def default_options_eq default_options_retry
      defaultAutoStopRetryDelay_def defaultStartupFailureCooldown_def go_time)

lemma proxy_inv_New: "New o' = Inr p \<Longrightarrow> proxy_inv 0 p"
  using New_cases [of o'] opts_ok_default [of o']
  by (auto simp: proxy_inv_def store_ok_def store_inv_def heap_inv_def queue_inv_empty alloc_inv_def
      timer_inv_def gate_inv_def gm_len_def New_accepts_def split: if_splits)

section \<open>Byte accounting of the queues\<close>

lemma queue_bytes_simps [simp]:
  "queue_bytes [] = 0" "queue_bytes (xs @ [d]) = queue_bytes xs + int (length d)"
  by (simp_all add: queue_bytes_def)

lemma queue_bytes_nonneg: "0 \<le> queue_bytes ps"
  by (induction ps) (auto simp: queue_bytes_def)

lemma queue_ok_nonneg: "queue_ok o' q \<Longrightarrow> 0 \<le> qbytes q"
  by (simp add: queue_ok_def queue_bytes_nonneg)

lemma total_bytes_nonneg: "\<forall>e \<in> set m. queue_ok o' (snd e) \<Longrightarrow> 0 \<le> total_bytes m"
  by (induction m) (fastforce simp: total_bytes_def dest: queue_ok_nonneg)+

definition qbytes_of :: "(sid, packetQueue) gomap \<Rightarrow> sid \<Rightarrow> int" where
  "qbytes_of m v = (case map_of m v of None \<Rightarrow> 0 | Some q \<Rightarrow> qbytes q)"

lemma map_of_not_key: "k \<notin> fst ` set m \<Longrightarrow> map_of m k = None"
  by (simp add: map_of_eq_None_iff)

lemma total_bytes_Cons [simp]: "total_bytes (e # m) = qbytes (snd e) + total_bytes m"
  by (simp add: total_bytes_def)

lemma qbytes_of_Cons [simp]:
  "qbytes_of (e # m) v = (if fst e = v then qbytes (snd e) else qbytes_of m v)"
  by (auto simp: qbytes_of_def)

lemma gm_wf_Cons [simp]: "gm_wf (e # m) \<longleftrightarrow> fst e \<notin> fst ` set m \<and> gm_wf m"
  by (auto simp: gm_wf_def)

lemma total_bytes_update:
  "gm_wf m \<Longrightarrow> total_bytes (AList.update v q m) = total_bytes m - qbytes_of m v + qbytes q"
proof (induction m)
  case Nil
  then show ?case by (simp add: total_bytes_def qbytes_of_def)
next
  case (Cons e m)
  then show ?case by (cases e) (auto simp: qbytes_of_def map_of_not_key)
qed

lemma total_bytes_delete:
  "gm_wf m \<Longrightarrow> total_bytes (AList.delete v m) = total_bytes m - qbytes_of m v"
proof (induction m)
  case Nil
  then show ?case by (simp add: total_bytes_def qbytes_of_def)
next
  case (Cons e m)
  have [simp]: "AList.delete v m = m" if "v \<notin> fst ` set m"
    using that by (simp add: AList.delete_idem)
  from Cons show ?case by (cases e) (auto simp: qbytes_of_def map_of_not_key)
qed

lemma set_update_alist:
  "e \<in> set (AList.update k v m) \<Longrightarrow> e = (k, v) \<or> e \<in> set m"
  by (induction m) (auto split: if_splits)

lemma set_delete_alist: "e \<in> set (AList.delete k m) \<Longrightarrow> e \<in> set m"
  by (simp add: delete_filter)

lemma keys_update: "fst ` set (AList.update k v m) = insert k (fst ` set m)"
  using dom_update [of k v m] by (simp add: dom_map_of_conv_image_fst [symmetric])

lemma keys_delete: "fst ` set (AList.delete k m) \<subseteq> fst ` set m"
  by (auto dest: set_delete_alist)

section \<open>Preservation by the operations\<close>

lemma enqueueLocked_frame [simp]:
  "opts (enqueueLocked v d p) = opts p" "pstore (enqueueLocked v d p) = pstore p"
  "sess_heap (enqueueLocked v d p) = sess_heap p" "backendReady (enqueueLocked v d p) = backendReady p"
  "next_sid (enqueueLocked v d p) = next_sid p" "watchers (enqueueLocked v d p) = watchers p"
  "shuttingDown (enqueueLocked v d p) = shuttingDown p" "armed (enqueueLocked v d p) = armed p"
  "startupRunning (enqueueLocked v d p) = startupRunning p" "timerWG (enqueueLocked v d p) = timerWG p"
  "next_timer (enqueueLocked v d p) = next_timer p" "startups (enqueueLocked v d p) = startups p"
  "startupGeneration (enqueueLocked v d p) = startupGeneration p"
  "stopGeneration (enqueueLocked v d p) = stopGeneration p" "stopTimer (enqueueLocked v d p) = stopTimer p"
  "startupBlockedUntil (enqueueLocked v d p) = startupBlockedUntil p" "ctx_err (enqueueLocked v d p) = ctx_err p"
  "readinessGeneration (enqueueLocked v d p) = readinessGeneration p"
  "backendRunning (enqueueLocked v d p) = backendRunning p"
  by (simp_all add: enqueueLocked_def Let_def)

lemma queue_inv_enqueueLocked:
  assumes inv: "queue_inv p" and o': "opts_ok (opts p)" and "\<not> backendReady p"
  shows "queue_inv (enqueueLocked v d p)"
proof -
  define q where "q = (case map_of (queues p) v of None \<Rightarrow> emptyQueue | Some q \<Rightarrow> q)"
  have wf: "gm_wf (queues p)" "queuedBytes p = total_bytes (queues p)"
      "queuedBytes p \<le> StartupBufferBytesGlobal (opts p)"
    and all: "\<And>e. e \<in> set (queues p) \<Longrightarrow> queue_ok (opts p) (snd e)"
    using inv by (auto simp: queue_inv_def)
  have q: "queue_ok (opts p) q" "qbytes_of (queues p) v = qbytes q"
    using o' by (auto simp: q_def qbytes_of_def emptyQueue_def queue_ok_def opts_ok_def
        split: option.splits dest!: map_of_SomeD all)
  show ?thesis
    using wf q \<open>\<not> backendReady p\<close> unfolding enqueueLocked_def q_def [symmetric] Let_def queue_inv_def
    by (auto simp: gm.wf_put total_bytes_update queue_ok_def dest!: set_update_alist all)
qed

lemma queues_keys_enqueueLocked:
  "fst ` set (queues (enqueueLocked v d p)) = insert v (fst ` set (queues p))"
  by (simp add: enqueueLocked_def Let_def keys_update)

lemma removeQueue_frame [simp]:
  "opts (removeQueue v p) = opts p" "pstore (removeQueue v p) = pstore p"
  "sess_heap (removeQueue v p) = sess_heap p" "backendReady (removeQueue v p) = backendReady p"
  "next_sid (removeQueue v p) = next_sid p" "watchers (removeQueue v p) = watchers p"
  "shuttingDown (removeQueue v p) = shuttingDown p" "armed (removeQueue v p) = armed p"
  "startupRunning (removeQueue v p) = startupRunning p" "timerWG (removeQueue v p) = timerWG p"
  "next_timer (removeQueue v p) = next_timer p" "startups (removeQueue v p) = startups p"
  "startupGeneration (removeQueue v p) = startupGeneration p"
  "stopGeneration (removeQueue v p) = stopGeneration p" "stopTimer (removeQueue v p) = stopTimer p"
  "startupBlockedUntil (removeQueue v p) = startupBlockedUntil p" "ctx_err (removeQueue v p) = ctx_err p"
  "readinessGeneration (removeQueue v p) = readinessGeneration p"
  "backendRunning (removeQueue v p) = backendRunning p"
  by (simp_all add: removeQueue_def split: option.split)

lemma queues_removeQueue: "queues (removeQueue v p) = AList.delete v (queues p)"
  by (auto simp: removeQueue_def AList.delete_idem map_of_eq_None_iff split: option.split)

lemma queuedBytes_removeQueue: "queuedBytes (removeQueue v p) = queuedBytes p - qbytes_of (queues p) v"
  by (auto simp: removeQueue_def qbytes_of_def split: option.split)

lemma queue_inv_delete:
  assumes "queue_inv p" "queues p1 = AList.delete v (queues p)"
    "queuedBytes p1 = queuedBytes p - qbytes_of (queues p) v" "opts p1 = opts p"
    "backendReady p1 = backendReady p"
  shows "queue_inv p1"
proof -
  have all: "\<And>e. e \<in> set (queues p) \<Longrightarrow> queue_ok (opts p) (snd e)" and "gm_wf (queues p)"
    using assms(1) by (auto simp: queue_inv_def)
  moreover have "0 \<le> qbytes_of (queues p) v"
    by (auto simp: qbytes_of_def split: option.split dest!: map_of_SomeD all queue_ok_nonneg)
  ultimately show ?thesis
    using assms by (auto simp: queue_inv_def gm.wf_del total_bytes_delete dest: set_delete_alist)
qed

lemma queue_inv_removeQueue: "queue_inv p \<Longrightarrow> queue_inv (removeQueue v p)"
  by (rule queue_inv_delete) (simp_all add: queues_removeQueue queuedBytes_removeQueue)

lemma drop_closed_eq:
  "drop_closed es p = p\<lparr>queues := queues (drop_closed es p), queuedBytes := queuedBytes (drop_closed es p)\<rparr>"
proof (induction es arbitrary: p)
  case (Cons e es)
  obtain v q where e: "e = (v, q)" by (cases e)
  let ?p1 = "p\<lparr>queues := AList.delete v (queues p), queuedBytes := queuedBytes p - qbytes q\<rparr>"
  show ?case
  proof (cases "done_closed (sess_heap p v)")
    case True
    then have d: "drop_closed (e # es) p = drop_closed es ?p1" by (simp add: e)
    show ?thesis unfolding d by (subst Cons.IH) simp
  next
    case False
    then have d: "drop_closed (e # es) p = drop_closed es p" by (simp add: e)
    show ?thesis unfolding d by (rule Cons.IH)
  qed
qed simp

lemma drop_closed_frame [simp]:
  "opts (drop_closed es p) = opts p" "pstore (drop_closed es p) = pstore p"
  "sess_heap (drop_closed es p) = sess_heap p" "backendReady (drop_closed es p) = backendReady p"
  "next_sid (drop_closed es p) = next_sid p" "watchers (drop_closed es p) = watchers p"
  "shuttingDown (drop_closed es p) = shuttingDown p" "armed (drop_closed es p) = armed p"
  "startupRunning (drop_closed es p) = startupRunning p" "timerWG (drop_closed es p) = timerWG p"
  "next_timer (drop_closed es p) = next_timer p" "startups (drop_closed es p) = startups p"
  "startupGeneration (drop_closed es p) = startupGeneration p"
  "stopGeneration (drop_closed es p) = stopGeneration p"
  "stopTimer (drop_closed es p) = stopTimer p"
  "startupBlockedUntil (drop_closed es p) = startupBlockedUntil p"
  "ctx_err (drop_closed es p) = ctx_err p"
  "readinessGeneration (drop_closed es p) = readinessGeneration p"
  "backendRunning (drop_closed es p) = backendRunning p"
  "lastCapacityWarning (drop_closed es p) = lastCapacityWarning p"
  "ready_closed (drop_closed es p) = ready_closed p"
  by (subst drop_closed_eq, simp)+

lemma removeClosedQueues_frame [simp]:
  "opts (removeClosedQueues p) = opts p" "pstore (removeClosedQueues p) = pstore p"
  "sess_heap (removeClosedQueues p) = sess_heap p"
  "backendReady (removeClosedQueues p) = backendReady p"
  "next_sid (removeClosedQueues p) = next_sid p" "watchers (removeClosedQueues p) = watchers p"
  "shuttingDown (removeClosedQueues p) = shuttingDown p" "armed (removeClosedQueues p) = armed p"
  "startupRunning (removeClosedQueues p) = startupRunning p"
  "timerWG (removeClosedQueues p) = timerWG p" "next_timer (removeClosedQueues p) = next_timer p"
  "startups (removeClosedQueues p) = startups p"
  "startupGeneration (removeClosedQueues p) = startupGeneration p"
  "stopGeneration (removeClosedQueues p) = stopGeneration p"
  "stopTimer (removeClosedQueues p) = stopTimer p"
  "startupBlockedUntil (removeClosedQueues p) = startupBlockedUntil p"
  "ctx_err (removeClosedQueues p) = ctx_err p"
  "readinessGeneration (removeClosedQueues p) = readinessGeneration p"
  "backendRunning (removeClosedQueues p) = backendRunning p"
  "lastCapacityWarning (removeClosedQueues p) = lastCapacityWarning p"
  "ready_closed (removeClosedQueues p) = ready_closed p"
  by (simp_all add: removeClosedQueues_def)

lemma drop_closed_spec:
  assumes "gm_wf es" "\<forall>e \<in> set es. map_of (queues p) (fst e) = Some (snd e)" "queue_inv p"
  shows "queue_inv (drop_closed es p)
       \<and> queues (drop_closed es p)
         = filter (\<lambda>e. \<not> (fst e \<in> fst ` set es \<and> done_closed (sess_heap p (fst e)))) (queues p)"
  using assms
proof (induction es arbitrary: p)
  case Nil
  then show ?case by simp
next
  case (Cons e es)
  obtain v q where e: "e = (v, q)" by (cases e)
  show ?case
  proof (cases "done_closed (sess_heap p v)")
    case True
    let ?p1 = "p\<lparr>queues := AList.delete v (queues p), queuedBytes := queuedBytes p - qbytes q\<rparr>"
    have "queue_inv ?p1"
      by (rule queue_inv_delete [OF Cons.prems(3)]) (use Cons.prems(2) e in \<open>auto simp: qbytes_of_def\<close>)
    moreover have "\<forall>e \<in> set es. map_of (queues ?p1) (fst e) = Some (snd e)"
      using Cons.prems(1,2) e by (force simp: delete_conv' image_iff)
    ultimately have IH: "queue_inv (drop_closed es ?p1)
       \<and> queues (drop_closed es ?p1)
         = filter (\<lambda>e. \<not> (fst e \<in> fst ` set es \<and> done_closed (sess_heap ?p1 (fst e)))) (queues ?p1)"
      using Cons.prems(1) by (intro Cons.IH) simp_all
    then show ?thesis using True
      by (auto simp: e delete_filter intro!: filter_cong)
  next
    case False
    then have d: "drop_closed (e # es) p = drop_closed es p" by (simp add: e)
    have IH: "queue_inv (drop_closed es p)
       \<and> queues (drop_closed es p)
         = filter (\<lambda>e. \<not> (fst e \<in> fst ` set es \<and> done_closed (sess_heap p (fst e)))) (queues p)"
      using Cons.prems by (intro Cons.IH) simp_all
    moreover have "filter (\<lambda>e. \<not> (fst e \<in> fst ` set es \<and> done_closed (sess_heap p (fst e)))) (queues p)
      = filter (\<lambda>e'. \<not> (fst e' \<in> fst ` set (e # es) \<and> done_closed (sess_heap p (fst e')))) (queues p)"
      using False by (intro filter_cong) (auto simp: e)
    ultimately show ?thesis unfolding d by simp
  qed
qed

lemma removeClosedQueues_spec:
  assumes "queue_inv p"
  shows "queue_inv (removeClosedQueues p)"
    "queues (removeClosedQueues p) = filter (\<lambda>e. \<not> done_closed (sess_heap p (fst e))) (queues p)"
proof -
  have "gm_wf (queues p)" using assms by (simp add: queue_inv_def)
  then have "\<forall>e \<in> set (queues p). map_of (queues p) (fst e) = Some (snd e)"
    by (auto simp: gm_wf_def)
  note * = drop_closed_spec [OF \<open>gm_wf (queues p)\<close> this assms]
  then show "queue_inv (removeClosedQueues p)"
    by (simp_all add: removeClosedQueues_def)
  from * show "queues (removeClosedQueues p) = filter (\<lambda>e. \<not> done_closed (sess_heap p (fst e))) (queues p)"
    by (auto simp: removeClosedQueues_def intro!: filter_cong)
qed

text \<open>Updates of the store and the heap.\<close>

lemma proxy_inv_heap:
  "proxy_inv k p \<Longrightarrow> sess_inv s \<Longrightarrow> proxy_inv k (p\<lparr>sess_heap := (sess_heap p)(v := s)\<rparr>)"
  by (simp add: proxy_inv_parts store_ok_def heap_inv_upd)

lemma proxy_inv_whole_heap:
  "proxy_inv k p \<Longrightarrow> heap_inv h \<Longrightarrow> proxy_inv k (p\<lparr>sess_heap := h\<rparr>)"
  by (simp add: proxy_inv_parts store_ok_def)

lemma proxy_inv_store:
  assumes "proxy_inv k p" "store_ok st h" "set (sessions st) \<subseteq> set (sessions (pstore p))"
  shows "proxy_inv k (p\<lparr>pstore := st, sess_heap := h\<rparr>)"
  using assms by (auto simp: proxy_inv_parts)

lemma proxy_inv_CloseAll:
  assumes "proxy_inv k p" "CloseAll (pstore p) (sess_heap p) = (err, st, h)"
  shows "proxy_inv k (p\<lparr>pstore := st, sess_heap := h\<rparr>)"
  using st.close_all_law [OF proxy_invD(2) [OF assms(1)] assms(2)] assms
  by (intro proxy_inv_store) (auto simp: CloseAll_def Let_def split: prod.splits)

lemma proxy_inv_Remove:
  assumes "proxy_inv k p" "Remove key v (pstore p) (sess_heap p) = (r, st, h)"
  shows "proxy_inv k (p\<lparr>pstore := st, sess_heap := h\<rparr>)"
proof (rule proxy_inv_store [OF assms(1)])
  show "store_ok st h"
    using st.remove_law [OF proxy_invD(2) [OF assms(1)], of key v "fst r" "fst (snd r)" "snd (snd r)" st h]
      assms(2) by simp
  show "set (sessions st) \<subseteq> set (sessions (pstore p))"
    using assms(2) unfolding Remove_spec [OF proxy_invD(7) [OF assms(1)]]
    by (auto split: if_splits dest: set_delete_alist)
qed

lemma proxy_inv_ExpireIdle:
  assumes "proxy_inv k p" "ExpireIdle cutoff (pstore p) (sess_heap p) = (r, st, h)"
  shows "proxy_inv k (p\<lparr>pstore := st, sess_heap := h\<rparr>)"
proof (rule proxy_inv_store [OF assms(1)])
  show "store_ok st h"
    using st.expire_law [OF proxy_invD(2) [OF assms(1)], of cutoff "fst r" "fst (snd r)" "snd (snd r)" st h]
      assms(2) by simp
  show "set (sessions st) \<subseteq> set (sessions (pstore p))"
    using assms(2) unfolding ExpireIdle_spec [OF proxy_invD(7) [OF assms(1)]] by auto
qed

text \<open>The queues.\<close>

lemma alloc_inv_queues:
  "alloc_inv p \<Longrightarrow> sessions (pstore p1) = sessions (pstore p) \<Longrightarrow> watchers p1 = watchers p
   \<Longrightarrow> next_sid p1 = next_sid p \<Longrightarrow> fst ` set (queues p1) \<subseteq> {v. v < next_sid p} \<Longrightarrow> alloc_inv p1"
  by (auto simp: alloc_inv_def)

lemma alloc_inv_keys: "alloc_inv p \<Longrightarrow> fst ` set (queues p) \<subseteq> {v. v < next_sid p}"
  by (auto simp: alloc_inv_def)

lemma proxy_inv_queues:
  assumes "proxy_inv k p" "queue_inv p1" "fst ` set (queues p1) \<subseteq> {v. v < next_sid p}"
    "opts p1 = opts p" "pstore p1 = pstore p" "sess_heap p1 = sess_heap p" "watchers p1 = watchers p"
    "next_sid p1 = next_sid p" "armed p1 = armed p" "next_timer p1 = next_timer p"
    "timerWG p1 = timerWG p" "shuttingDown p1 = shuttingDown p" "backendReady p1 = backendReady p"
    "startupRunning p1 = startupRunning p"
  shows "proxy_inv k p1"
  using assms(1-3) alloc_inv_queues [of p p1]
  unfolding proxy_inv_def timer_inv_def gate_inv_def assms(4-) by simp

lemma proxy_inv_enqueueLocked:
  assumes "proxy_inv k p" "\<not> backendReady p" "v < next_sid p"
  shows "proxy_inv k (enqueueLocked v d p)"
  using assms alloc_inv_keys [OF proxy_invD(4)]
  by (intro proxy_inv_queues [OF assms(1)])
    (auto simp: queue_inv_enqueueLocked proxy_invD queues_keys_enqueueLocked)

lemma proxy_inv_removeQueue:
  assumes "proxy_inv k p"
  shows "proxy_inv k (removeQueue v p)"
  using alloc_inv_keys [OF proxy_invD(4) [OF assms]] keys_delete [of v "queues p"]
  by (intro proxy_inv_queues [OF assms])
    (simp_all add: queue_inv_removeQueue proxy_invD [OF assms] queues_removeQueue)

lemma proxy_inv_removeClosedQueues:
  assumes "proxy_inv k p"
  shows "proxy_inv k (removeClosedQueues p)"
  using alloc_inv_keys [OF proxy_invD(4) [OF assms]] removeClosedQueues_spec [OF proxy_invD(3) [OF assms]]
  by (intro proxy_inv_queues [OF assms]) auto

lemma proxy_inv_clear:
  "proxy_inv k p \<Longrightarrow> proxy_inv k (p\<lparr>queues := [], queuedBytes := 0\<rparr>)"
  by (simp add: proxy_inv_parts total_bytes_def opts_ok_def)

text \<open>Flags, startups and timers.\<close>

lemma proxy_inv_startServer: "proxy_inv k p \<Longrightarrow> proxy_inv k (startServer now p)"
  by (simp add: startServer_def Let_def proxy_inv_parts)

lemma proxy_inv_running: "proxy_inv k p \<Longrightarrow> proxy_inv k (p\<lparr>backendRunning := b\<rparr>)"
  by (simp add: proxy_inv_parts)

lemma filter_none: "x \<notin> f ` set xs \<Longrightarrow> filter (\<lambda>y. f y = x) xs = []"
  by (auto simp: filter_empty_conv)

lemma length_filter_one:
  "distinct (map f xs) \<Longrightarrow> x \<in> f ` set xs \<Longrightarrow> length (filter (\<lambda>y. f y = x) xs) = 1"
  by (induction xs) (auto simp: filter_none)

lemma timer_inv_stop: "timer_inv k p \<Longrightarrow> timer_inv k (stopAutoStopTimerLocked p)"
proof -
  assume inv: "timer_inv k p"
  have len: "int (length (filter (\<lambda>x. timer_id x \<noteq> t) (armed p))) = int (length (armed p)) - 1"
    if "t \<in> timer_id ` set (armed p)" for t
    using sum_length_filter_compl [of "\<lambda>x. timer_id x = t" "armed p"] that inv
    by (simp add: length_filter_one timer_inv_def)
  from inv show ?thesis
    by (auto simp: stopAutoStopTimerLocked_def timer_inv_def Let_def len distinct_map_filter
        split: option.split)
qed

lemma stopAutoStop_frame [simp]:
  "opts (stopAutoStopTimerLocked p) = opts p" "pstore (stopAutoStopTimerLocked p) = pstore p"
  "sess_heap (stopAutoStopTimerLocked p) = sess_heap p" "queues (stopAutoStopTimerLocked p) = queues p"
  "queuedBytes (stopAutoStopTimerLocked p) = queuedBytes p" "next_sid (stopAutoStopTimerLocked p) = next_sid p"
  "backendReady (stopAutoStopTimerLocked p) = backendReady p" "watchers (stopAutoStopTimerLocked p) = watchers p"
  "shuttingDown (stopAutoStopTimerLocked p) = shuttingDown p" "startups (stopAutoStopTimerLocked p) = startups p"
  "startupRunning (stopAutoStopTimerLocked p) = startupRunning p" "ctx_err (stopAutoStopTimerLocked p) = ctx_err p"
  "startupGeneration (stopAutoStopTimerLocked p) = startupGeneration p"
  "stopGeneration (stopAutoStopTimerLocked p) = stopGeneration p" "stopTimer (stopAutoStopTimerLocked p) = None"
  "readinessGeneration (stopAutoStopTimerLocked p) = readinessGeneration p"
  "backendRunning (stopAutoStopTimerLocked p) = backendRunning p"
  "startupBlockedUntil (stopAutoStopTimerLocked p) = startupBlockedUntil p"
  "next_timer (stopAutoStopTimerLocked p) = next_timer p"
  by (simp_all add: stopAutoStopTimerLocked_def Let_def split: option.split)

lemma proxy_inv_stop: "proxy_inv k p \<Longrightarrow> proxy_inv k (stopAutoStopTimerLocked p)"
  by (simp add: proxy_inv_def timer_inv_stop queue_inv_def alloc_inv_def gate_inv_def)

lemma proxy_inv_stopGeneration: "proxy_inv k p \<Longrightarrow> proxy_inv k (p\<lparr>stopGeneration := g\<rparr>)"
  by (simp add: proxy_inv_parts)

lemma proxy_inv_stopTimer: "proxy_inv k p \<Longrightarrow> proxy_inv k (p\<lparr>stopTimer := g\<rparr>)"
  by (simp add: proxy_inv_parts)

lemma timer_inv_arm:
  assumes "timer_inv k p" "1 \<le> attempt" "attempt \<le> maxAutoStopAttempts"
  shows "timer_inv k (scheduleAutoStopAttemptLocked g attempt delay p)"
proof -
  have "next_timer p \<notin> timer_id ` set (armed p)" using assms(1) by (auto simp: timer_inv_def)
  with assms show ?thesis
    by (auto simp: timer_inv_def scheduleAutoStopAttemptLocked_def timer_ok_def less_Suc_eq)
qed

lemma proxy_inv_arm:
  "proxy_inv k p \<Longrightarrow> 1 \<le> attempt \<Longrightarrow> attempt \<le> maxAutoStopAttempts \<Longrightarrow>
     proxy_inv k (scheduleAutoStopAttemptLocked g attempt delay p)"
  using timer_inv_arm [of k p attempt g delay]
  by (simp add: proxy_inv_def queue_inv_def alloc_inv_def gate_inv_def scheduleAutoStopAttemptLocked_def)

lemma proxy_inv_cancelAutoStop: "proxy_inv k p \<Longrightarrow> proxy_inv k (cancelAutoStop p)"
  by (simp add: cancelAutoStop_def proxy_inv_stop proxy_inv_stopGeneration)

lemma proxy_inv_scheduleAutoStop: "proxy_inv k p \<Longrightarrow> proxy_inv k (scheduleAutoStop p)"
  unfolding scheduleAutoStop_def Let_def
  by (auto simp: maxAutoStopAttempts_def intro!: proxy_inv_arm proxy_inv_stop proxy_inv_stopGeneration)

lemma proxy_inv_markBackendNotRunning: "proxy_inv k p \<Longrightarrow> proxy_inv k (markBackendNotRunning p)"
  by (auto simp: markBackendNotRunning_def Let_def proxy_inv_parts)

lemma proxy_inv_autoStopResult:
  assumes "proxy_inv k p" "1 \<le> attempt"
  shows "proxy_inv k (autoStopResult r g attempt p)"
  using assms unfolding autoStopResult_def Let_def
  by (auto split: option.split
      intro!: proxy_inv_arm proxy_inv_stopTimer proxy_inv_markBackendNotRunning)

section \<open>Preservation by the compound operations\<close>

lemma sess_inv_RecordActivity: "sess_inv s \<Longrightarrow> RecordActivity now s = (e, s1) \<Longrightarrow> sess_inv s1"
  using sess_inv_do [of s "CallRecordActivity now"] by simp

lemma sess_inv_ForwardClient: "sess_inv s \<Longrightarrow> ForwardClient now wr d s = (e, s1) \<Longrightarrow> sess_inv s1"
  using sess_inv_do [of s "CallForwardClient now wr d"] by simp

lemma proxy_inv_forwardOrQueue:
  assumes "proxy_inv k p" "v < next_sid p"
  shows "proxy_inv k (snd (forwardOrQueue ta ts wr v d p))"
proof (cases "backendReady p")
  case True
  then show ?thesis using assms
    by (auto simp: forwardOrQueue_def split: prod.split option.split
        intro!: proxy_inv_heap dest: sess_inv_ForwardClient [OF proxy_invD(9) [OF assms(1)]])
next
  case False
  then show ?thesis using assms
    by (auto simp: forwardOrQueue_def split: prod.split option.split
        intro!: proxy_inv_heap proxy_inv_startServer proxy_inv_enqueueLocked
        dest: sess_inv_RecordActivity [OF proxy_invD(9) [OF assms(1)]])
qed

lemma sess_inv_flush_packets: "sess_inv s \<Longrightarrow> sess_inv (flush_packets tm wr i ds s)"
  by (induction tm wr i ds s rule: flush_packets.induct)
    (auto split: prod.split option.split dest: sess_inv_ForwardClient)

lemma heap_inv_flush_queues: "heap_inv h \<Longrightarrow> heap_inv (flush_queues tm wr qs h)"
  by (induction tm wr qs h rule: flush_queues.induct)
    (simp_all add: heap_inv_upd heap_invD sess_inv_flush_packets)

lemma proxy_inv_open:
  "proxy_inv k p \<Longrightarrow> \<not> shuttingDown p \<Longrightarrow> queues p = [] \<Longrightarrow>
     proxy_inv k (p\<lparr>backendReady := True, readinessGeneration := g\<rparr>)"
  by (auto simp: proxy_inv_parts)

lemma proxy_inv_openStartupGate_locked:
  "proxy_inv k p \<Longrightarrow> openStartupGate_locked tm wr p = (b, p1) \<Longrightarrow> proxy_inv k p1"
proof -
  assume inv: "proxy_inv k p" and eq: "openStartupGate_locked tm wr p = (b, p1)"
  let ?p3 = "p\<lparr>backendRunning := True, sess_heap := flush_queues tm wr (queues p) (sess_heap p),
               queues := [], queuedBytes := 0\<rparr>"
  have p3: "proxy_inv k ?p3"
    using proxy_inv_clear [OF proxy_inv_whole_heap [OF proxy_inv_running [OF inv]]]
    by (simp add: heap_inv_flush_queues proxy_invD [OF inv])
  moreover have "proxy_inv k (?p3\<lparr>backendReady := True, readinessGeneration := g\<rparr>)"
    if "\<not> shuttingDown p" for g
    using that by (intro proxy_inv_open [OF p3]) simp_all
  ultimately show ?thesis using inv eq
    by (auto simp: openStartupGate_locked_def Let_def split: if_splits)
qed

lemma proxy_inv_openStartupGate: "proxy_inv k p \<Longrightarrow> proxy_inv k (openStartupGate tm wr p)"
  by (auto simp: openStartupGate_def split: prod.split bool.split intro!: proxy_inv_scheduleAutoStop
      dest: proxy_inv_openStartupGate_locked)

lemma proxy_inv_completeStartup: "proxy_inv k p \<Longrightarrow> proxy_inv k (snd (completeStartup now g p))"
  by (simp add: completeStartup_def Let_def proxy_inv_parts)

lemma proxy_inv_finishStartup: "proxy_inv k p \<Longrightarrow> proxy_inv k (finishStartup now now' g p)"
  using proxy_inv_completeStartup [of k p now g]
  by (auto simp: finishStartup_def proxy_inv_startServer split: prod.split bool.split)

lemma proxy_inv_closeAllSessions: "proxy_inv k p \<Longrightarrow> proxy_inv k (closeAllSessions p)"
  by (auto simp: closeAllSessions_def split: prod.split intro: proxy_inv_CloseAll)

lemma proxy_inv_failStartup_locked: "proxy_inv k p \<Longrightarrow> proxy_inv k (failStartup_locked now g perm p)"
  using proxy_inv_clear [of k p] by (auto simp: failStartup_locked_def Let_def proxy_inv_parts)

lemma proxy_inv_failStartup: "proxy_inv k p \<Longrightarrow> proxy_inv k (failStartup now g perm p)"
  by (simp add: failStartup_def proxy_inv_closeAllSessions proxy_inv_failStartup_locked)

lemma proxy_inv_startups: "proxy_inv k p \<Longrightarrow> proxy_inv k (p\<lparr>startups := l\<rparr>)"
  by (simp add: proxy_inv_parts)

lemma proxy_inv_startup_goroutine_end:
  "proxy_inv k p \<Longrightarrow> proxy_inv k (startup_goroutine_end now now' err g p)"
  by (simp add: startup_goroutine_end_def Let_def proxy_inv_startups proxy_inv_failStartup
      proxy_inv_finishStartup)

lemma proxy_inv_ensureRunning_poll:
  assumes "proxy_inv k p" "ensureRunning_poll r sent p = (out, p1, calls)"
  shows "proxy_inv k p1"
  using assms unfolding ensureRunning_poll_def running_branch_def offline_branch_def Let_def
  by (auto split: sum.splits server_state.splits if_splits poll_outcome.splits option.splits
      intro: proxy_inv_openStartupGate proxy_inv_running proxy_inv_markBackendNotRunning)

lemma proxy_inv_ensureRunning_loop:
  "proxy_inv k p \<Longrightarrow> ensureRunning_loop rs sent p = (res, p1, calls) \<Longrightarrow> proxy_inv k p1"
  by (induction rs arbitrary: sent p res p1 calls)
    (auto split: prod.splits poll_outcome.splits dest: proxy_inv_ensureRunning_poll)

lemma heap_inv_refresh_each: "heap_inv h \<Longrightarrow> heap_inv (refresh_each tm vs h)"
proof (induction vs arbitrary: h)
  case (Cons v vs)
  have "sess_inv (snd (RecordActivity (tm v) (h v)))"
    using sess_inv_RecordActivity [OF heap_invD [OF Cons.prems]] by (metis prod.collapse)
  with Cons.prems have "heap_inv (h(v := snd (RecordActivity (tm v) (h v))))" by (rule heap_inv_upd)
  then show ?case unfolding refresh_each.simps by (rule Cons.IH)
qed simp

lemma proxy_inv_expireIdleSessions: "proxy_inv k p \<Longrightarrow> proxy_inv k (expireIdleSessions tm now p)"
proof -
  assume inv: "proxy_inv k p"
  let ?p1 = "refreshPendingSessions tm p"
  have p1: "proxy_inv k ?p1"
    unfolding refreshPendingSessions_def
    using proxy_inv_whole_heap [OF inv heap_inv_refresh_each [OF proxy_invD(8) [OF inv]]] .
  obtain ex rem err st h where e: "ExpireIdle (time_Add now (- IdleTimeout (opts ?p1))) (pstore ?p1)
      (sess_heap ?p1) = ((ex, rem, err), st, h)" by (metis prod.collapse)
  have "proxy_inv k (?p1\<lparr>pstore := st, sess_heap := h\<rparr>)" by (rule proxy_inv_ExpireIdle [OF p1 e])
  then show ?thesis
    by (auto simp: expireIdleSessions_def Let_def e intro: proxy_inv_scheduleAutoStop
        proxy_inv_removeClosedQueues)
qed

lemma proxy_inv_closeBackendGate_locked:
  "proxy_inv k p \<Longrightarrow> closeBackendGate_locked g p = (b, p1) \<Longrightarrow> proxy_inv k p1"
proof -
  assume inv: "proxy_inv k p" and eq: "closeBackendGate_locked g p = (b, p1)"
  let ?p1 = "p\<lparr>backendReady := False, backendRunning := False,
               readinessGeneration := readinessGeneration p + 1, stopGeneration := stopGeneration p + 1\<rparr>"
  have "proxy_inv k ?p1" using inv by (auto simp: proxy_inv_parts)
  then have "proxy_inv k ((stopAutoStopTimerLocked ?p1)\<lparr>queues := [], queuedBytes := 0\<rparr>)"
    by (intro proxy_inv_clear proxy_inv_stop)
  then show ?thesis using inv eq by (auto simp: closeBackendGate_locked_def Let_def split: if_splits)
qed

lemma proxy_inv_closeBackendGate: "proxy_inv k p \<Longrightarrow> proxy_inv k (closeBackendGate g p)"
  by (auto simp: closeBackendGate_def split: prod.split bool.split
      intro: proxy_inv_closeAllSessions dest: proxy_inv_closeBackendGate_locked)

lemma proxy_inv_shutdown_locked: "proxy_inv k p \<Longrightarrow> proxy_inv k (shutdown_locked p)"
  unfolding shutdown_locked_def Let_def
  by (rule proxy_inv_stop) (auto simp: proxy_inv_parts)

lemma proxy_inv_shutdown: "proxy_inv k p \<Longrightarrow> proxy_inv k (shutdown p)"
  by (simp add: shutdown_def proxy_inv_closeAllSessions proxy_inv_shutdown_locked)

lemma proxy_inv_watchSession_body: "proxy_inv k p \<Longrightarrow> proxy_inv k (watchSession_body key v p)"
  by (auto simp: watchSession_body_def watch_remove_def Let_def split: prod.split
      intro!: proxy_inv_scheduleAutoStop proxy_inv_removeQueue proxy_inv_Remove)

lemma forwardOrQueue_frame [simp]:
  "next_sid (snd (forwardOrQueue ta ts wr v d p)) = next_sid p"
  "pstore (snd (forwardOrQueue ta ts wr v d p)) = pstore p"
  "opts (snd (forwardOrQueue ta ts wr v d p)) = opts p"
  "watchers (snd (forwardOrQueue ta ts wr v d p)) = watchers p"
  "backendReady (snd (forwardOrQueue ta ts wr v d p)) = backendReady p"
  "shuttingDown (snd (forwardOrQueue ta ts wr v d p)) = shuttingDown p"
  "stopGeneration (snd (forwardOrQueue ta ts wr v d p)) = stopGeneration p"
  "armed (snd (forwardOrQueue ta ts wr v d p)) = armed p"
  "startupBlockedUntil (snd (forwardOrQueue ta ts wr v d p)) = startupBlockedUntil p"
  "backendRunning (snd (forwardOrQueue ta ts wr v d p)) = backendRunning p"
  "readinessGeneration (snd (forwardOrQueue ta ts wr v d p)) = readinessGeneration p"
  "ctx_err (snd (forwardOrQueue ta ts wr v d p)) = ctx_err p"
  by (simp_all add: forwardOrQueue_def startServer_def Let_def split: prod.split option.split)

lemma Get_alloc: "proxy_inv k p \<Longrightarrow> Get key (pstore p) = Some v \<Longrightarrow> v < next_sid p"
  by (auto simp: proxy_inv_def alloc_inv_def dest!: Get_stored)

lemma try_existing_eq:
  "try_existing env i key d p =
     (case Get key (pstore p) of
        None \<Rightarrow> (False, None, p)
      | Some v \<Rightarrow> (fst (forwardOrQueue (pe_now env i) (pe_start env i) (pe_wr env i) v d p), Some v,
                  snd (forwardOrQueue (pe_now env i) (pe_start env i) (pe_wr env i) v d p)))"
  by (auto simp: try_existing_def split: option.split prod.split bool.split)

lemma proxy_inv_try_existing:
  "proxy_inv k p \<Longrightarrow> try_existing env i key d p = (b, v, p1) \<Longrightarrow> proxy_inv k p1"
  by (auto simp: try_existing_eq split: option.splits intro!: proxy_inv_forwardOrQueue intro: Get_alloc [OF _ sym])

lemma proxy_inv_drop_stale: "proxy_inv k p \<Longrightarrow> proxy_inv k (drop_stale key v p)"
  by (auto simp: drop_stale_def Let_def split: prod.split intro!: proxy_inv_removeQueue proxy_inv_Remove)

lemma session_initI: "NewSession dial now o' = Inr s \<Longrightarrow> session_init s"
  by (auto simp: session_init_def)

lemma factory_ok_session:
  "proxy_inv k p \<Longrightarrow> factory_ok (session_factory env key p) (pstore p) (sess_heap p)"
  by (auto simp: factory_ok_def session_factory_def proxy_inv_def alloc_inv_def store_ok_def
      split: sum.split intro!: heap_inv_upd sess_inv_init intro: session_initI)

lemma proxy_inv_create:
  assumes "proxy_inv k p" "GetOrCreate key (session_factory env key p) (pstore p) (sess_heap p)
      = ((r, created, n, err), st, h)"
  shows "proxy_inv k (p\<lparr>pstore := st, sess_heap := h, next_sid := (if created then next_sid p + 1 else next_sid p)\<rparr>)"
    "r = Some v \<Longrightarrow> v < (if created then next_sid p + 1 else next_sid p)"
    "\<not> created \<Longrightarrow> st = pstore p"
    "created \<Longrightarrow> r = Some (next_sid p)"
proof -
  note ok = GetOrCreate_ok [OF proxy_invD(2) [OF assms(1)] factory_ok_session [OF assms(1)] assms(2)]
  have new: "v = next_sid p" if "session_factory env key p (sess_heap p) = ((Some v, None), h)" for v
    using that by (auto simp: session_factory_def split: sum.splits)
  show "proxy_inv k (p\<lparr>pstore := st, sess_heap := h, next_sid := (if created then next_sid p + 1 else next_sid p)\<rparr>)"
    using assms(2)
  proof (cases rule: GetOrCreate_cases)
    case (new v)
    then have "v = next_sid p" by (auto simp: session_factory_def split: sum.splits)
    with new assms(1) ok show ?thesis
      by (fastforce simp: proxy_inv_parts less_Suc_eq dest: set_update_alist)
  qed (use assms(1) ok in \<open>auto simp: proxy_inv_parts\<close>)
  show "v < (if created then next_sid p + 1 else next_sid p)" if "r = Some v"
    using assms(2) by (cases rule: GetOrCreate_cases) (use that Get_alloc [OF assms(1)] new in auto)
  show "st = pstore p" if "\<not> created"
    using assms(2) by (cases rule: GetOrCreate_cases) (use that in auto)
  show "r = Some (next_sid p)" if "created"
    using assms(2) by (cases rule: GetOrCreate_cases) (use that new in auto)
qed

lemma proxy_inv_watchSession: "proxy_inv k p \<Longrightarrow> v < next_sid p \<Longrightarrow> proxy_inv k (watchSession key v p)"
  by (auto simp: watchSession_def proxy_inv_parts)

lemma proxy_inv_warn: "proxy_inv k p \<Longrightarrow> proxy_inv k (snd (shouldLogCapacityWarning now p))"
  by (simp add: shouldLogCapacityWarning_def proxy_inv_parts)

lemma cancelAutoStop_frame [simp]:
  "next_sid (cancelAutoStop p) = next_sid p" "pstore (cancelAutoStop p) = pstore p"
  "sess_heap (cancelAutoStop p) = sess_heap p" "queues (cancelAutoStop p) = queues p"
  "backendReady (cancelAutoStop p) = backendReady p" "opts (cancelAutoStop p) = opts p"
  "stopGeneration (cancelAutoStop p) = stopGeneration p + 1" "watchers (cancelAutoStop p) = watchers p"
  "shuttingDown (cancelAutoStop p) = shuttingDown p" "stopTimer (cancelAutoStop p) = None"
  by (simp_all add: cancelAutoStop_def)

lemma watchSession_frame [simp]:
  "next_sid (watchSession key v p) = next_sid p" "pstore (watchSession key v p) = pstore p"
  "sess_heap (watchSession key v p) = sess_heap p" "queues (watchSession key v p) = queues p"
  "backendReady (watchSession key v p) = backendReady p" "opts (watchSession key v p) = opts p"
  "stopGeneration (watchSession key v p) = stopGeneration p" "armed (watchSession key v p) = armed p"
  "shuttingDown (watchSession key v p) = shuttingDown p"
  by (simp_all add: watchSession_def)

lemma proxy_inv_admit:
  assumes "proxy_inv k p"
  shows "proxy_inv k (admit env key d p)"
proof -
  obtain r created n err st h where g: "GetOrCreate key (session_factory env key p) (pstore p) (sess_heap p)
      = ((r, created, n, err), st, h)" by (metis prod.collapse)
  note c = proxy_inv_create [OF assms g]
  have e: "proxy_inv k (p\<lparr>pstore := st, sess_heap := h\<rparr>)" if "err \<noteq> None"
    using g by (cases rule: GetOrCreate_cases) (use that c(1) in auto)
  have "proxy_inv k (if created then watchSession key v (cancelAutoStop q) else q)
      \<and> v < next_sid (if created then watchSession key v (cancelAutoStop q) else q)"
    if "r = Some v" "q = p\<lparr>pstore := st, sess_heap := h, next_sid := (if created then next_sid p + 1 else next_sid p)\<rparr>"
    for v q
    using c(1,2) that by (auto intro!: proxy_inv_watchSession proxy_inv_cancelAutoStop)
  then show ?thesis using assms e
    by (auto simp: admit_def Let_def g split: option.split
        intro!: proxy_inv_warn proxy_inv_startServer proxy_inv_forwardOrQueue)
qed

lemma proxy_inv_handleClientPacket: "proxy_inv k p \<Longrightarrow> proxy_inv k (handleClientPacket env key d p)"
  by (auto simp: handleClientPacket_def split: prod.split bool.split option.split
      intro!: proxy_inv_admit proxy_inv_drop_stale intro: proxy_inv_try_existing)

lemma proxy_inv_Serve_begin:
  "proxy_inv k p \<Longrightarrow> queues p = [] \<Longrightarrow> \<not> shuttingDown p \<Longrightarrow> proxy_inv k (Serve_begin ctxe now st p)"
  by (auto simp: Serve_begin_def Let_def proxy_inv_parts startServer_def)

lemma proxy_inv_Serve_iteration:
  "proxy_inv k p \<Longrightarrow> Serve_iteration env r p = (out, p1) \<Longrightarrow> proxy_inv k p1"
  by (auto simp: Serve_iteration_def split: listener_read.splits if_splits
      intro: proxy_inv_handleClientPacket)

end
