(* ===== verification/ProxyProps.thy ===== *)
theory ProxyProps
  imports ProxyInv
begin

text \<open>
  Properties of the proxy's operations, each on its own: construction, the startup queues
  and their flush, the admission of packets, the startup procedure, the auto-stop timer,
  the sweeper, the health monitor and shutdown.
\<close>

section \<open>A proxy to evaluate on\<close>

definition ex_popts :: options where
  "ex_popts = \<lparr>Listener = Some 1, BackendAddr = Some ''192.0.2.10:8211'', has_Controller = True,
     Detector = Some (\<lambda>d. d = [9]), has_Readiness = True, MaxSessions = 2, MaxPacketSize = 4,
     IdleTimeout = 60 * second, SweepInterval = 0, AutoStopDelay = 300 * second, AutoStopRetryDelay = 0,
     StartupTimeout = 90 * second, StartupPollInterval = 2 * second, StartupSettleDelay = second,
     StartupFailureCooldown = 0, StartupBufferPackets = 2, StartupBufferBytesPerSession = 6,
     StartupBufferBytesGlobal = 7\<rparr>"

definition ex_proxy :: proxy where
  "ex_proxy = (case New ex_popts of Inr p \<Rightarrow> p)"

lemma ex_accepts: "New_accepts ex_popts"
  by (simp add: New_accepts_def ex_popts_def go_time)

lemma ex_proxy_New: "New ex_popts = Inr ex_proxy"
  using New_cases [of ex_popts] ex_accepts by (auto simp: ex_proxy_def)

lemma ex_proxy_inv: "proxy_inv 0 ex_proxy"
  by (rule proxy_inv_New [OF ex_proxy_New])

lemma ex_proxy_fields:
  "opts ex_proxy = default_options ex_popts" "queues ex_proxy = []" "queuedBytes ex_proxy = 0"
  "pstore ex_proxy = \<lparr>store_max = 2, sessions = []\<rparr>" "next_sid ex_proxy = 0"
  "\<not> backendReady ex_proxy" "\<not> backendRunning ex_proxy" "\<not> startupRunning ex_proxy"
  "\<not> shuttingDown ex_proxy" "startupBlockedUntil ex_proxy = time_zero" "ctx_err ex_proxy = None"
  "armed ex_proxy = []" "stopTimer ex_proxy = None" "startups ex_proxy = []" "watchers ex_proxy = []"
  "sess_heap ex_proxy = (\<lambda>_. blank_session)"
  using New_cases [of ex_popts] ex_accepts ex_proxy_New by (auto simp: ex_popts_def)

section \<open>Construction\<close>

text \<open>
  \<open>New\<close> accepts exactly the options with all four collaborators, positive packet size,
  idle and auto-stop delays, a poll interval below the startup timeout and buffers that
  hold at least one maximum-size packet; otherwise it returns an error. The proxy it
  builds has its missing intervals defaulted (the sweep interval ends up in (0, 5 s] or as
  given), starts gated with empty store and queues, and satisfies the invariants.
\<close>

theorem New_accepts_exactly:
  "(\<exists>p. New o' = Inr p) = New_accepts o'
   \<and> (case New o' of Inl e \<Rightarrow> True | Inr p \<Rightarrow>
        proxy_inv 0 p \<and> \<not> backendReady p \<and> Len (pstore p) = 0 \<and> queues p = []
        \<and> 0 < SweepInterval (opts p)
        \<and> SweepInterval (opts p) \<le> max (5 * second) (SweepInterval o')
        \<and> 0 < AutoStopRetryDelay (opts p) \<and> 0 < StartupFailureCooldown (opts p))"
proof (cases "New_accepts o'")
  case True
  then obtain p where p: "New o' = Inr p" "opts p = default_options o'" "\<not> backendReady p"
      "pstore p = \<lparr>store_max = MaxSessions o', sessions = []\<rparr>" "queues p = []"
    using New_cases [of o'] by auto
  have "opts_ok (opts p)" using proxy_inv_New [OF p(1)] by (rule proxy_invD)
  moreover have "SweepInterval (opts p) \<le> max (5 * second) (SweepInterval o')"
    unfolding p(2) default_options_sweep by (auto simp: Let_def min_def max_def go_time)
  ultimately show ?thesis using True p proxy_inv_New [OF p(1)]
    by (simp add: Len_def gm_len_def opts_ok_def)
next
  case False
  then show ?thesis using New_cases [of o'] by auto
qed

section \<open>The startup queue and its flush\<close>

text \<open>The packets a flush writes: those before the first failing write.\<close>

fun ok_prefix :: "(nat \<Rightarrow> goerror option) \<Rightarrow> nat \<Rightarrow> bytes list \<Rightarrow> bytes list" where
  "ok_prefix wr i [] = []"
| "ok_prefix wr i (d # ds) = (if wr i = None then d # ok_prefix wr (i + 1) ds else [])"

lemma ForwardClient_open:
  assumes "sess_inv s" "\<not> closed s"
  shows "ForwardClient now wr d s =
     (case wr of
        None \<Rightarrow> (None, s\<lparr>lastActivity := UnixNano now, upstream_sent := upstream_sent s @ [d]\<rparr>)
      | Some e \<Rightarrow> (Some (Wrap ''forward client packet'' e), closeResources (s\<lparr>lastActivity := UnixNano now\<rparr>)))"
  using assms by (auto simp: ForwardClient_def open_RecordActivity upstream_Write_def sess_inv_def
      split: option.split)

lemma closeResources_sent [simp]: "upstream_sent (closeResources s) = upstream_sent s"
  by (simp add: closeResources_def closeSocket_def)

lemma closed_closeResources: "sess_inv s \<Longrightarrow> closed (closeResources (s\<lparr>lastActivity := t\<rparr>))"
  by (auto simp: closeResources_def closeSocket_def sess_inv_def)

lemma flush_packets_sent:
  assumes "sess_inv s" "\<not> closed s"
  shows "upstream_sent (flush_packets tm wr i ds s) = upstream_sent s @ ok_prefix wr i ds
       \<and> (closed (flush_packets tm wr i ds s) \<longleftrightarrow> ok_prefix wr i ds \<noteq> ds)"
  using assms
proof (induction ds arbitrary: i s)
  case (Cons d ds)
  let ?s = "s\<lparr>lastActivity := UnixNano (tm i), upstream_sent := upstream_sent s @ [d]\<rparr>"
  have "sess_inv ?s" "\<not> closed ?s" using Cons.prems by (simp_all add: sess_inv_def)
  from Cons.IH [OF this] Cons.prems show ?case
    by (auto simp: ForwardClient_open closed_closeResources split: option.split)
qed simp

lemma flush_packets_closed: "closed s \<Longrightarrow> flush_packets tm wr i ds s = s"
  by (cases ds) (auto simp: closed_ForwardClient)

lemma flush_queues_at:
  "gm_wf qs \<Longrightarrow> flush_queues tm wr qs h v =
     (case map_of qs v of None \<Rightarrow> h v | Some q \<Rightarrow> flush_packets (tm v) (wr v) 0 (packets q) (h v))"
proof (induction qs arbitrary: h)
  case (Cons e qs)
  obtain w q where e: "e = (w, q)" by (cases e)
  have "map_of qs w = None" using Cons.prems by (simp add: e map_of_not_key)
  with Cons show ?case by (auto simp: e split: option.split)
qed simp

lemma openStartupGate_heap:
  "\<not> shuttingDown p \<Longrightarrow> sess_heap (openStartupGate tm wr p) = flush_queues tm wr (queues p) (sess_heap p)"
  by (simp add: openStartupGate_def openStartupGate_locked_def Let_def scheduleAutoStop_def scheduleAutoStopAttemptLocked_def)

lemma openStartupGate_flags:
  assumes "\<not> shuttingDown p"
  shows "backendReady (openStartupGate tm wr p)" "backendRunning (openStartupGate tm wr p)"
    "queues (openStartupGate tm wr p) = []" "queuedBytes (openStartupGate tm wr p) = 0"
    "pstore (openStartupGate tm wr p) = pstore p"
    "readinessGeneration (openStartupGate tm wr p) = readinessGeneration p + of_bool (\<not> backendReady p)"
  using assms by (simp_all add: openStartupGate_def openStartupGate_locked_def Let_def scheduleAutoStop_def scheduleAutoStopAttemptLocked_def)

text \<open>
  C13: Opening the gate delivers every buffered session's packets to its upstream socket in
  arrival order, after everything it sent before and up to the first failing write (which
  closes that session); it does so before the gate is open for new datagrams, leaves
  sessions without a queue and closed sessions untouched, empties all queues, and arms the
  auto-stop timer exactly when no session is left.
\<close>

theorem openStartupGate_flushes_in_order:
  assumes "proxy_inv k p" "\<not> shuttingDown p"
  shows "(\<forall>v q. map_of (queues p) v = Some q \<and> \<not> closed (sess_heap p v) \<longrightarrow>
            upstream_sent (sess_heap (openStartupGate tm wr p) v)
              = upstream_sent (sess_heap p v) @ ok_prefix (wr v) 0 (packets q)
            \<and> closed (sess_heap (openStartupGate tm wr p) v) = (ok_prefix (wr v) 0 (packets q) \<noteq> packets q))
       \<and> (\<forall>v. map_of (queues p) v = None \<or> closed (sess_heap p v) \<longrightarrow>
            sess_heap (openStartupGate tm wr p) v = sess_heap p v)
       \<and> backendReady (openStartupGate tm wr p) \<and> queues (openStartupGate tm wr p) = []
       \<and> queuedBytes (openStartupGate tm wr p) = 0
       \<and> (Len (pstore p) = 0 \<longrightarrow>
            (\<exists>t \<in> set (armed (openStartupGate tm wr p)). timer_attempt t = 1
               \<and> timer_delay t = AutoStopDelay (opts p)
               \<and> timer_generation t = stopGeneration (openStartupGate tm wr p)
               \<and> stopTimer (openStartupGate tm wr p) = Some (timer_id t)))
       \<and> (Len (pstore p) \<noteq> 0 \<longrightarrow> armed (openStartupGate tm wr p) = armed p)"
proof -
  have wf: "gm_wf (queues p)" using proxy_invD(3) [OF assms(1)] by (simp add: queue_inv_def)
  note at = openStartupGate_heap [OF assms(2), of tm wr, THEN fun_cong, unfolded flush_queues_at [OF wf]]
  have "\<exists>t \<in> set (armed (openStartupGate tm wr p)). timer_attempt t = 1
      \<and> timer_delay t = AutoStopDelay (opts p)
      \<and> timer_generation t = stopGeneration (openStartupGate tm wr p)
      \<and> stopTimer (openStartupGate tm wr p) = Some (timer_id t)" if "Len (pstore p) = 0"
    using that assms(2)
    by (simp add: openStartupGate_def openStartupGate_locked_def Let_def scheduleAutoStop_def scheduleAutoStopAttemptLocked_def)
  moreover have "armed (openStartupGate tm wr p) = armed p" if "Len (pstore p) \<noteq> 0"
    using that assms(2) by (simp add: openStartupGate_def openStartupGate_locked_def Let_def)
  ultimately show ?thesis
    using openStartupGate_flags [OF assms(2)] flush_packets_sent [OF proxy_invD(9) [OF assms(1)]]
    by (auto simp: at flush_packets_closed split: option.split)
qed

text \<open>Two sessions with queued packets, behind a closed gate.\<close>

definition ex_pending :: proxy where
  "ex_pending = enqueueLocked 1 [7] (enqueueLocked 0 [2, 3] (enqueueLocked 0 [9]
     (ex_proxy\<lparr>pstore := \<lparr>store_max = 2, sessions = [(''a'', 0), (''b'', 1)]\<rparr>, next_sid := 2,
               watchers := [(''a'', 0), (''b'', 1)], startupRunning := True, startupGeneration := 1,
               startups := [1]\<rparr>)))"

lemma ex_pending_queues:
  "queues ex_pending = [(0, \<lparr>packets = [[9], [2, 3]], qbytes = 3, overflowLogged = False\<rparr>),
     (1, \<lparr>packets = [[7]], qbytes = 1, overflowLogged = False\<rparr>)]" "queuedBytes ex_pending = 4"
  by (simp_all add: ex_pending_def enqueueLocked_def ex_proxy_fields Let_def emptyQueue_def
      default_options_eq ex_popts_def)

lemma ex_pending_fields:
  "\<not> shuttingDown ex_pending" "\<not> backendReady ex_pending" "sess_heap ex_pending = (\<lambda>_. blank_session)"
  "pstore ex_pending = \<lparr>store_max = 2, sessions = [(''a'', 0), (''b'', 1)]\<rparr>" "next_sid ex_pending = 2"
  "opts ex_pending = default_options ex_popts" "armed ex_pending = []" "ctx_err ex_pending = None"
  "startupRunning ex_pending" "startupGeneration ex_pending = 1" "startups ex_pending = [1]"
  "startupBlockedUntil ex_pending = time_zero" "watchers ex_pending = [(''a'', 0), (''b'', 1)]"
  by (simp_all add: ex_pending_def ex_proxy_fields)

lemma ex_pending_inv: "proxy_inv 0 ex_pending"
  using ex_proxy_inv unfolding ex_pending_def
  by (intro proxy_inv_enqueueLocked)
    (auto simp: ex_proxy_fields proxy_inv_parts store_ok_def store_inv_def gm_wf_def gm_len_def)

theorem openStartupGate_flushes_in_order_witness:
  "upstream_sent (sess_heap (openStartupGate (\<lambda>_ _. 0) (\<lambda>_ _. None) ex_pending) 0) = [[9], [2, 3]]
   \<and> upstream_sent (sess_heap (openStartupGate (\<lambda>_ _. 0) (\<lambda>_ _. None) ex_pending) 1) = [[7]]
   \<and> backendReady (openStartupGate (\<lambda>_ _. 0) (\<lambda>_ _. None) ex_pending)"
  using openStartupGate_flushes_in_order [OF ex_pending_inv ex_pending_fields(1), of "\<lambda>_ _. 0" "\<lambda>_ _. None"]
  by (simp add: ex_pending_queues ex_pending_fields blank_session_def)

section \<open>Admission of client packets\<close>

definition detects :: "proxy \<Rightarrow> bytes \<Rightarrow> bool" where
  "detects p d = (case Detector (opts p) of None \<Rightarrow> False | Some det \<Rightarrow> det d)"

lemma handleClientPacket_unknown:
  "d \<noteq> [] \<Longrightarrow> Get key (pstore p) = None \<Longrightarrow> handleClientPacket env key d p = admit env key d p"
  by (simp add: handleClientPacket_def try_existing_eq)


definition ex_env :: packet_env where
  "ex_env = \<lparr>pe_now = (\<lambda>_. unix_epoch), pe_start = (\<lambda>_. unix_epoch), pe_wr = (\<lambda>_. None), pe_gate_now = unix_epoch,
     pe_create_now = unix_epoch, pe_dial = (\<lambda>_. None), pe_warn_now = unix_epoch, pe_start_now = unix_epoch\<rparr>"


text \<open>What the creation of a session does, when there is room and the dial succeeds.\<close>

lemma GetOrCreate_new:
  assumes "proxy_inv k p" "Get key (pstore p) = None" "Len (pstore p) < store_max (pstore p)"
    "\<forall>a. pe_dial env a = None"
  obtains s where "NewSession (pe_dial env) (pe_create_now env)
      \<lparr>so_ClientAddr = Some key, so_BackendAddr = BackendAddr (opts p),
       so_PublicConn = Listener (opts p), so_MaxPacketSize = MaxPacketSize (opts p)\<rparr> = Inr s"
    "GetOrCreate key (session_factory env key p) (pstore p) (sess_heap p)
      = ((Some (next_sid p), True, Len (pstore p) + 1, None),
         (pstore p)\<lparr>sessions := AList.update key (next_sid p) (sessions (pstore p))\<rparr>,
         (sess_heap p)(next_sid p := s))"
    "\<not> closed s" "upstream_sent s = []" "clientAddr s = key"
proof -
  obtain l b where o': "Listener (opts p) = Some l" "BackendAddr (opts p) = Some b" "1 \<le> MaxPacketSize (opts p)"
    using proxy_invD(1) [OF assms(1)] by (auto simp: opts_ok_def)
  let ?o = "\<lparr>so_ClientAddr = Some key, so_BackendAddr = BackendAddr (opts p),
       so_PublicConn = Listener (opts p), so_MaxPacketSize = MaxPacketSize (opts p)\<rparr>"
  obtain s where s: "NewSession (pe_dial env) (pe_create_now env) ?o = Inr s"
      "\<not> closed s" "upstream_sent s = []" "clientAddr s = key"
    using o' assms(4) NewSession_Inr [of "pe_dial env" "pe_create_now env" ?o] by auto
  have wf: "gm_wf (sessions (pstore p))"
    using proxy_invD(7) [OF assms(1)] by (simp add: store_inv_def)
  have none: "map_of (sessions (pstore p)) key = None"
    using assms(2) by (simp add: Get_def)
  have "GetOrCreate key (session_factory env key p) (pstore p) (sess_heap p)
      = ((Some (next_sid p), True, Len (pstore p) + 1, None),
         (pstore p)\<lparr>sessions := AList.update key (next_sid p) (sessions (pstore p))\<rparr>,
         (sess_heap p)(next_sid p := s))"
    using assms(3) s(1) gm.len_put_new [OF wf none]
    by (simp add: GetOrCreate_def session_factory_def none Len_def Let_def)
  with s that show ?thesis by blast
qed

text \<open>The state the new session's first packet is handled in.\<close>

definition admitted :: "udp_addr \<Rightarrow> session \<Rightarrow> proxy \<Rightarrow> proxy" where
  "admitted key s p = watchSession key (next_sid p) (cancelAutoStop
     (p\<lparr>pstore := (pstore p)\<lparr>sessions := AList.update key (next_sid p) (sessions (pstore p))\<rparr>,
        sess_heap := (sess_heap p)(next_sid p := s), next_sid := next_sid p + 1\<rparr>))"

lemma admitted_fields [simp]:
  "pstore (admitted key s p) = (pstore p)\<lparr>sessions := AList.update key (next_sid p) (sessions (pstore p))\<rparr>"
  "sess_heap (admitted key s p) = (sess_heap p)(next_sid p := s)" "queues (admitted key s p) = queues p"
  "backendReady (admitted key s p) = backendReady p" "stopTimer (admitted key s p) = None"
  "stopGeneration (admitted key s p) = stopGeneration p + 1" "opts (admitted key s p) = opts p"
  "watchers (admitted key s p) = watchers p @ [(key, next_sid p)]" "next_sid (admitted key s p) = next_sid p + 1"
  "shuttingDown (admitted key s p) = shuttingDown p" "startupRunning (admitted key s p) = startupRunning p"
  "startups (admitted key s p) = startups p" "startupGeneration (admitted key s p) = startupGeneration p"
  "startupBlockedUntil (admitted key s p) = startupBlockedUntil p" "queuedBytes (admitted key s p) = queuedBytes p"
  by (simp_all add: admitted_def watchSession_def cancelAutoStop_def)

lemma handle_new:
  assumes "proxy_inv k p" "Get key (pstore p) = None" "Len (pstore p) < store_max (pstore p)"
    "\<forall>a. pe_dial env a = None" "d \<noteq> []" "\<not> time_Before (pe_gate_now env) (startupBlockedUntil p)"
    "backendReady p \<or> backendRunning p \<or> detects p d"
  obtains s where "handleClientPacket env key d p =
      (let p3 = snd (forwardOrQueue (pe_now env 2) (pe_start env 2) (pe_wr env 2) (next_sid p) d (admitted key s p))
       in if backendReady p then p3 else startServer (pe_start_now env) p3)"
    "\<not> closed s" "upstream_sent s = []" "clientAddr s = key" "sess_inv s"
proof -
  obtain s where s: "NewSession (pe_dial env) (pe_create_now env)
      \<lparr>so_ClientAddr = Some key, so_BackendAddr = BackendAddr (opts p),
       so_PublicConn = Listener (opts p), so_MaxPacketSize = MaxPacketSize (opts p)\<rparr> = Inr s"
    "GetOrCreate key (session_factory env key p) (pstore p) (sess_heap p)
      = ((Some (next_sid p), True, Len (pstore p) + 1, None),
         (pstore p)\<lparr>sessions := AList.update key (next_sid p) (sessions (pstore p))\<rparr>,
         (sess_heap p)(next_sid p := s))"
    "\<not> closed s" "upstream_sent s = []" "clientAddr s = key"
    by (rule GetOrCreate_new [OF assms(1-4)])
  have "sess_inv s" by (rule sess_inv_init [OF session_initI [OF s(1)]])
  have "handleClientPacket env key d p = admit env key d p"
    using assms(2,5) by (rule handleClientPacket_unknown [rotated])
  also have "\<dots> = (let p3 = snd (forwardOrQueue (pe_now env 2) (pe_start env 2) (pe_wr env 2) (next_sid p) d (admitted key s p))
       in if backendReady p then p3 else startServer (pe_start_now env) p3)"
    using assms(6,7) by (auto simp: admit_def s(2) admitted_def detects_def Let_def)
  finally show ?thesis using s(3-5) \<open>sess_inv s\<close> that by blast
qed

lemma queue_fresh: "proxy_inv k p \<Longrightarrow> map_of (queues p) (next_sid p) = None"
  by (auto simp: proxy_inv_def alloc_inv_def map_of_eq_None_iff)

text \<open>
  C14: A recognised first datagram of a new client wakes the server: when the gate is closed
  (and no cooldown runs, the store and the buffers have room and the dial succeeds) the
  handler creates one open session under the client's address, buffers exactly that
  datagram for it without sending anything upstream, gives the session a watcher, cancels
  a pending auto-stop, and leaves exactly one startup running: a new goroutine of the next
  generation if none ran, none otherwise.
\<close>

theorem wake_packet_starts_server:
  assumes "proxy_inv k p" "Get key (pstore p) = None" "Len (pstore p) < store_max (pstore p)"
    "\<forall>a. pe_dial env a = None" "d \<noteq> []" "\<not> time_Before (pe_gate_now env) (startupBlockedUntil p)"
    "\<not> time_Before (pe_start env 2) (startupBlockedUntil p)"
    "\<not> backendReady p" "\<not> shuttingDown p" "backendRunning p \<or> detects p d"
    "int (length d) \<le> MaxPacketSize (opts p)"
    "queuedBytes p + int (length d) \<le> StartupBufferBytesGlobal (opts p)"
  shows "(let p' = handleClientPacket env key d p; v = next_sid p
     in Get key (pstore p') = Some v \<and> Len (pstore p') = Len (pstore p) + 1
      \<and> \<not> closed (sess_heap p' v) \<and> upstream_sent (sess_heap p' v) = []
      \<and> map_of (queues p') v = Some \<lparr>packets = [d], qbytes = int (length d), overflowLogged = False\<rparr>
      \<and> (\<forall>w. w \<noteq> v \<longrightarrow> map_of (queues p') w = map_of (queues p) w)
      \<and> watchers p' = watchers p @ [(key, v)]
      \<and> stopTimer p' = None \<and> stopGeneration p' = stopGeneration p + 1
      \<and> startupRunning p'
      \<and> startups p' = (if startupRunning p then startups p else startups p @ [startupGeneration p + 1]))"
proof -
  let ?v = "next_sid p"
  obtain s where s: "handleClientPacket env key d p = startServer (pe_start_now env)
      (snd (forwardOrQueue (pe_now env 2) (pe_start env 2) (pe_wr env 2) ?v d (admitted key s p)))"
    "\<not> closed s" "upstream_sent s = []"
    by (rule handle_new [OF assms(1-6)]) (use assms in \<open>auto simp: Let_def\<close>)
  define q where "q = (admitted key s p)\<lparr>sess_heap := (sess_heap p)(?v := s\<lparr>lastActivity := UnixNano (pe_now env 2)\<rparr>)\<rparr>"
  have q_fields: "opts q = opts p" "queues q = queues p" "queuedBytes q = queuedBytes p"
      "pstore q = pstore (admitted key s p)"
    by (simp_all add: q_def)
  have "forwardOrQueue (pe_now env 2) (pe_start env 2) (pe_wr env 2) ?v d (admitted key s p)
      = (True, startServer (pe_start env 2) (enqueueLocked ?v d q))"
    using assms(8) s(2) by (simp add: forwardOrQueue_def open_RecordActivity q_def)
  then have h: "handleClientPacket env key d p
      = startServer (pe_start_now env) (startServer (pe_start env 2) (enqueueLocked ?v d q))"
    using s(1) by simp
  have room: "int (length d) \<le> StartupBufferBytesPerSession (opts p)" "1 \<le> StartupBufferPackets (opts p)"
    using proxy_invD(1) [OF assms(1)] assms(11) by (auto simp: opts_ok_def)
  have e: "queues (enqueueLocked ?v d q)
      = AList.update ?v \<lparr>packets = [d], qbytes = int (length d), overflowLogged = False\<rparr> (queues p)"
    using queue_fresh [OF assms(1)] room assms(12)
    by (simp add: enqueueLocked_def q_fields emptyQueue_def Let_def)
  have g: "Get key (pstore (admitted key s p)) = Some ?v" "Len (pstore (admitted key s p)) = Len (pstore p) + 1"
    using gm.len_put_new [of "sessions (pstore p)" key ?v] proxy_invD(7) [OF assms(1)] assms(2)
    by (simp_all add: Get_def Len_def store_inv_def update_conv')
  show ?thesis using g assms(7-9) s(2,3) unfolding h Let_def
    by (simp add: startServer_def e q_fields Let_def update_conv') (simp add: q_def)
qed

lemma ex_gate: "\<not> time_Before unix_epoch time_zero"
  by (simp add: go_time unix_epoch_def)

theorem wake_packet_starts_server_witness:
  "startups (handleClientPacket ex_env ''a'' [9] ex_proxy) = [startupGeneration ex_proxy + 1]
   \<and> map_of (queues (handleClientPacket ex_env ''a'' [9] ex_proxy)) 0
     = Some \<lparr>packets = [[9]], qbytes = 1, overflowLogged = False\<rparr>"
proof -
  have "detects ex_proxy [9]" by (simp add: detects_def ex_proxy_fields default_options_eq ex_popts_def)
  then show ?thesis
    using wake_packet_starts_server [OF ex_proxy_inv, of "''a''" ex_env "[9]"] ex_gate
    by (simp add: ex_proxy_fields Get_def Len_def gm_len_def ex_env_def default_options_eq ex_popts_def Let_def)
qed

text \<open>
  With the gate open and no startup cooldown a datagram goes straight to the backend: for a
  client with an open session, and for a new client (room in the store, dial succeeds)
  through a freshly created session; exactly that datagram is appended to what the
  session has sent, nothing is queued, no startup begins, and every other session is untouched.
\<close>

theorem open_gate_forwards:
  assumes "proxy_inv k p" "backendReady p" "d \<noteq> []" "pe_wr env 0 = None" "pe_wr env 2 = None"
    "\<not> time_Before (pe_gate_now env) (startupBlockedUntil p)"
    "case Get key (pstore p) of
       Some v \<Rightarrow> \<not> closed (sess_heap p v)
     | None \<Rightarrow> Len (pstore p) < store_max (pstore p) \<and> (\<forall>a. pe_dial env a = None)"
  shows "(let p' = handleClientPacket env key d p;
              v = (case Get key (pstore p) of Some v \<Rightarrow> v | None \<Rightarrow> next_sid p)
     in Get key (pstore p') = Some v \<and> \<not> closed (sess_heap p' v)
      \<and> upstream_sent (sess_heap p' v)
        = (case Get key (pstore p) of Some v \<Rightarrow> upstream_sent (sess_heap p v) | None \<Rightarrow> []) @ [d]
      \<and> queues p' = [] \<and> startups p' = startups p
      \<and> (\<forall>w. w \<noteq> v \<longrightarrow> sess_heap p' w = sess_heap p w))"
proof (cases "Get key (pstore p)")
  case (Some v)
  then have "\<not> closed (sess_heap p v)" using assms(7) by simp
  moreover have "queues p = []" using proxy_invD(3) [OF assms(1)] assms(2) by (simp add: queue_inv_def)
  ultimately show ?thesis using Some assms(2-4)
    by (simp add: handleClientPacket_def try_existing_eq forwardOrQueue_def
        ForwardClient_open [OF proxy_invD(9) [OF assms(1)]])
next
  case None
  then have room: "Len (pstore p) < store_max (pstore p)" "\<forall>a. pe_dial env a = None"
    using assms(7) by simp_all
  obtain s where s: "handleClientPacket env key d p = snd (forwardOrQueue (pe_now env 2) (pe_start env 2)
        (pe_wr env 2) (next_sid p) d (admitted key s p))"
      "\<not> closed s" "upstream_sent s = []" "sess_inv s"
    by (rule handle_new [OF assms(1) None room assms(3,6)]) (use assms(2) in \<open>auto simp: Let_def\<close>)
  have "queues p = []" using proxy_invD(3) [OF assms(1)] assms(2) by (simp add: queue_inv_def)
  then show ?thesis unfolding s(1) using None assms(2,5) s(2-4)
    by (simp add: forwardOrQueue_def ForwardClient_open Get_def update_conv')
qed

definition ex_ready :: proxy where
  "ex_ready = openStartupGate (\<lambda>_ _. unix_epoch) (\<lambda>_ _. None) ex_pending"

lemma ex_ready_inv: "proxy_inv 0 ex_ready"
  unfolding ex_ready_def by (rule proxy_inv_openStartupGate [OF ex_pending_inv])

lemma ex_ready_heap: "sess_heap ex_ready 0 = blank_session\<lparr>lastActivity := UnixNano unix_epoch, upstream_sent := [[9], [2, 3]]\<rparr>"
  unfolding ex_ready_def openStartupGate_heap [OF ex_pending_fields(1)]
  by (simp add: ex_pending_queues ex_pending_fields flush_queues_at ForwardClient_def RecordActivity_def
      touch_def upstream_Write_def blank_session_def)

lemma ex_ready_fields:
  "backendReady ex_ready" "queues ex_ready = []" "pstore ex_ready = pstore ex_pending"
  "startupBlockedUntil ex_ready = time_zero" "opts ex_ready = default_options ex_popts"
  using openStartupGate_flags [OF ex_pending_fields(1), of "\<lambda>_ _. unix_epoch" "\<lambda>_ _. None"]
  by (simp_all add: ex_ready_def) (simp_all add: openStartupGate_def openStartupGate_locked_def Let_def ex_pending_fields Len_def gm_len_def)

theorem open_gate_forwards_witness:
  "upstream_sent (sess_heap (handleClientPacket ex_env ''a'' [5] ex_ready) 0) = [[9], [2, 3], [5]]"
  using open_gate_forwards [OF ex_ready_inv, of "[5]" ex_env "''a''"] ex_gate
  by (simp add: ex_ready_fields ex_pending_fields Get_def ex_env_def ex_ready_heap blank_session_def Let_def)

section \<open>The startup procedure\<close>

definition is_start :: "ctl_call \<Rightarrow> bool" where
  "is_start c = (case c of CallStart _ \<Rightarrow> True | _ \<Rightarrow> False)"

definition starts :: "ctl_call list \<Rightarrow> nat" where
  "starts cs = length (filter is_start cs)"

definition stoppings :: "ctl_call list \<Rightarrow> nat" where
  "stoppings cs = length (filter (\<lambda>c. c = CallStatus (Inr StateStopping)) cs)"


lemma starts_simps [simp]:
  "starts [] = 0" "starts (xs @ ys) = starts xs + starts ys"
  "starts (CallStart e # cs) = Suc (starts cs)" "starts (CallStatus s # cs) = starts cs"
  "starts (CallWaitReady e # cs) = starts cs" "starts (CallProbe e # cs) = starts cs"
  by (simp_all add: starts_def is_start_def)

lemma stoppings_simps [simp]:
  "stoppings [] = 0" "stoppings (xs @ ys) = stoppings xs + stoppings ys"
  "stoppings (c # cs) = (if c = CallStatus (Inr StateStopping) then Suc (stoppings cs) else stoppings cs)"
  by (simp_all add: stoppings_def)







definition statuses :: "ctl_call list \<Rightarrow> nat" where
  "statuses cs = length (filter (\<lambda>c. case c of CallStatus _ \<Rightarrow> True | _ \<Rightarrow> False) cs)"

lemma statuses_simps [simp]:
  "statuses [] = 0" "statuses (xs @ ys) = statuses xs + statuses ys"
  "statuses (CallStatus s # cs) = Suc (statuses cs)" "statuses (CallStart e # cs) = statuses cs"
  "statuses (CallWaitReady e # cs) = statuses cs" "statuses (CallProbe e # cs) = statuses cs"
  by (simp_all add: statuses_def)

lemma openStartupGate_opts [simp]: "opts (openStartupGate tm wr p) = opts p"
  by (simp add: openStartupGate_def openStartupGate_locked_def Let_def scheduleAutoStop_def scheduleAutoStopAttemptLocked_def)

lemma markBackendNotRunning_frame [simp]:
  "opts (markBackendNotRunning p) = opts p" "queues (markBackendNotRunning p) = queues p"
  "\<not> backendReady (markBackendNotRunning p)" "\<not> backendRunning (markBackendNotRunning p)"
  "pstore (markBackendNotRunning p) = pstore p" "sess_heap (markBackendNotRunning p) = sess_heap p"
  "shuttingDown (markBackendNotRunning p) = shuttingDown p" "armed (markBackendNotRunning p) = armed p"
  "stopGeneration (markBackendNotRunning p) = stopGeneration p"
  "startupRunning (markBackendNotRunning p) = startupRunning p" "startups (markBackendNotRunning p) = startups p"
  "startupGeneration (markBackendNotRunning p) = startupGeneration p" "watchers (markBackendNotRunning p) = watchers p"
  "next_sid (markBackendNotRunning p) = next_sid p" "timerWG (markBackendNotRunning p) = timerWG p"
  "stopTimer (markBackendNotRunning p) = stopTimer p" "next_timer (markBackendNotRunning p) = next_timer p"
  "ctx_err (markBackendNotRunning p) = ctx_err p"
  by (simp_all add: markBackendNotRunning_def Let_def)

text \<open>The confirmations an iteration has seen when it opens the gate.\<close>

definition confirmed :: "options \<Rightarrow> poll \<Rightarrow> bool" where
  "confirmed o' r \<longleftrightarrow> po_status r = Inr StateRunning
     \<and> (has_Readiness o' \<longrightarrow> po_wait r = None \<and> po_probe r = None)
     \<and> (StartupSettleDelay o' > 0 \<longrightarrow> po_settle r = None)"

definition confirmed_calls :: "options \<Rightarrow> ctl_call list" where
  "confirmed_calls o' = CallStatus (Inr StateRunning)
     # (if has_Readiness o' then [CallWaitReady None, CallProbe None] else [])"

lemma poll_result:
  assumes "ensureRunning_poll r sent p = (out, p1, calls)"
  shows "opts p1 = opts p" "statuses calls = 1"
    "out = Returned None \<Longrightarrow> confirmed (opts p) r \<and> calls = confirmed_calls (opts p)
       \<and> p1 = openStartupGate (po_tm r) (po_wr r) (p\<lparr>backendRunning := True\<rparr>)"
    "out \<noteq> Returned None \<Longrightarrow> queues p1 = queues p \<and> sess_heap p1 = sess_heap p \<and> (backendReady p1 \<longrightarrow> backendReady p)"
    "out = Continue s \<Longrightarrow> po_tick r = None"
  using assms unfolding ensureRunning_poll_def running_branch_def offline_branch_def Let_def confirmed_def
    confirmed_calls_def
  by (auto split: sum.splits server_state.splits if_splits poll_outcome.splits option.splits)

lemma loop_result:
  assumes "ensureRunning_loop rs sent p = (res, p1, calls)"
  shows "opts p1 = opts p \<and>
     (res = Some None \<longrightarrow> (\<exists>r \<in> set rs. confirmed (opts p) r \<and> (\<exists>cs. calls = cs @ confirmed_calls (opts p))
          \<and> (\<exists>q. p1 = openStartupGate (po_tm r) (po_wr r) q \<and> queues q = queues p \<and> sess_heap q = sess_heap p)))
     \<and> (res \<noteq> Some None \<longrightarrow> queues p1 = queues p \<and> sess_heap p1 = sess_heap p \<and> (backendReady p1 \<longrightarrow> backendReady p))"
  using assms
proof (induction rs arbitrary: sent p res p1 calls)
  case (Cons r rs)
  obtain out q c where poll: "ensureRunning_poll r sent p = (out, q, c)" by (metis prod.collapse)
  note pr = poll_result [OF poll]
  show ?case
  proof (cases out)
    case (Returned e)
    then have eq: "res = Some e" "p1 = q" "calls = c" using Cons.prems poll by auto
    show ?thesis
    proof (cases e)
      case None
      with pr(1,3) Returned eq show ?thesis
        by (auto intro!: exI [of _ "p\<lparr>backendRunning := True\<rparr>"])
    next
      case (Some x)
      with pr(1,4) Returned eq show ?thesis by auto
    qed
  next
    case (Continue s)
    obtain res' p' more where l: "ensureRunning_loop rs s q = (res', p', more)" by (metis prod.collapse)
    have eq: "calls = c @ more" "res = res'" "p1 = p'" using Cons.prems poll Continue l by auto
    from pr(1,4) Continue have q: "opts q = opts p" "queues q = queues p" "sess_heap q = sess_heap p"
      "backendReady q \<longrightarrow> backendReady p" by auto
    from Cons.IH [OF l] q show ?thesis unfolding eq by auto
  qed
qed simp

text \<open>
  C11: The gate opens only on confirmation: when \<open>ensureRunning\<close> returns without an error, its
  last calls were a status answer \<open>running\<close>, then (with a readiness check configured) a
  successful wait and, after the settle delay elapsed, a successful recheck; the final step
  is the opening of the gate over the queues and sessions as they were. When it returns an
  error or has not returned, the gate is no more open than before and no queued packet has
  been sent or dropped.
\<close>

theorem ensureRunning_opens_only_confirmed:
  assumes "ensureRunning rs p = (res, p1, calls)"
  shows "(res = Some None \<longrightarrow> (\<exists>r \<in> set rs. confirmed (opts p) r \<and> (\<exists>cs. calls = cs @ confirmed_calls (opts p))
          \<and> (\<exists>q. p1 = openStartupGate (po_tm r) (po_wr r) q \<and> queues q = queues p \<and> sess_heap q = sess_heap p)))
     \<and> (res \<noteq> Some None \<longrightarrow> queues p1 = queues p \<and> sess_heap p1 = sess_heap p \<and> (backendReady p1 \<longrightarrow> backendReady p))"
  using loop_result [OF assms [unfolded ensureRunning_def]] by blast

definition ex_poll :: "(goerror + server_state) \<Rightarrow> poll" where
  "ex_poll st = \<lparr>po_status = st, po_start = None, po_wait = None, po_settle = None, po_probe = None,
     po_tick = None, po_tm = (\<lambda>_ _. unix_epoch), po_wr = (\<lambda>_ _. None)\<rparr>"

lemma ex_ensureRunning:
  "ensureRunning [ex_poll (Inr StateOffline), ex_poll (Inr StateRunning)] ex_pending =
     (Some None, openStartupGate (\<lambda>_ _. unix_epoch) (\<lambda>_ _. None) ((markBackendNotRunning ex_pending)\<lparr>backendRunning := True\<rparr>),
      [CallStatus (Inr StateOffline), CallStart None, CallStatus (Inr StateRunning), CallWaitReady None, CallProbe None])"
  by (simp add: ensureRunning_def ensureRunning_poll_def ex_poll_def offline_branch_def running_branch_def Let_def
      ex_pending_fields default_options_eq ex_popts_def)

theorem ensureRunning_opens_only_confirmed_witness:
  "\<exists>r \<in> set [ex_poll (Inr StateOffline), ex_poll (Inr StateRunning)]. confirmed (opts ex_pending) r"
  using ensureRunning_opens_only_confirmed [OF ex_ensureRunning] by blast

text \<open>
  C10: The startup procedure ends: once the context is done while iteration \<open>n\<close> waits for its
  tick (the startup timeout or a shutdown), it has returned after at most \<open>n + 1\<close> status
  queries, whatever was answered; so it has when iteration \<open>n\<close> meets a permanent error of
  the status query.
\<close>

theorem ensureRunning_ends:
  assumes "n < length rs" "po_tick (rs ! n) \<noteq> None
     \<or> (\<exists>e. po_status (rs ! n) = Inl e \<and> IsPermanent (Some e))"
  shows "case ensureRunning rs p of (res, p1, calls) \<Rightarrow>
     (\<exists>e. res = Some e) \<and> statuses calls \<le> n + 1"
proof -
  have "case ensureRunning_loop rs sent p of (res, p1, calls) \<Rightarrow> (\<exists>e. res = Some e) \<and> statuses calls \<le> n + 1" for sent
    using assms
  proof (induction rs arbitrary: n sent p)
    case (Cons r rs)
    obtain out q c where poll: "ensureRunning_poll r sent p = (out, q, c)" by (metis prod.collapse)
    note pr = poll_result [OF poll]
    show ?case
    proof (cases out)
      case (Returned e)
      then show ?thesis using poll pr(2) by simp
    next
      case (Continue s)
      have "\<not> (\<exists>e. po_status r = Inl e \<and> IsPermanent (Some e))"
        using poll Continue by (auto simp: ensureRunning_poll_def)
      then obtain m where m: "n = Suc m" using Cons.prems pr(5) [OF Continue] by (cases n) auto
      with Cons.IH [of m s q] Cons.prems show ?thesis
        using poll Continue pr(2) by (auto split: prod.splits)
    qed
  qed simp
  then show ?thesis by (simp add: ensureRunning_def)
qed

theorem ensureRunning_ends_witness:
  "\<exists>e. fst (ensureRunning [ex_poll (Inr StateOffline), (ex_poll (Inr StateOffline))\<lparr>po_tick := Some DeadlineExceeded\<rparr>]
         ex_pending) = Some e"
  using ensureRunning_ends [of 1 "[ex_poll (Inr StateOffline), (ex_poll (Inr StateOffline))\<lparr>po_tick := Some DeadlineExceeded\<rparr>]" ex_pending]
  by (auto split: prod.splits)

lemma startServer_frame [simp]:
  "opts (startServer now p) = opts p" "pstore (startServer now p) = pstore p"
  "sess_heap (startServer now p) = sess_heap p" "queues (startServer now p) = queues p"
  "backendReady (startServer now p) = backendReady p" "backendRunning (startServer now p) = backendRunning p"
  "shuttingDown (startServer now p) = shuttingDown p" "armed (startServer now p) = armed p"
  "stopGeneration (startServer now p) = stopGeneration p" "watchers (startServer now p) = watchers p"
  "next_sid (startServer now p) = next_sid p" "ctx_err (startServer now p) = ctx_err p"
  "timerWG (startServer now p) = timerWG p" "stopTimer (startServer now p) = stopTimer p"
  "startupBlockedUntil (startServer now p) = startupBlockedUntil p"
  "readinessGeneration (startServer now p) = readinessGeneration p" "next_timer (startServer now p) = next_timer p"
  by (simp_all add: startServer_def Let_def)

lemma failStartup_effect:
  assumes "proxy_inv k p"
  shows "queues (failStartup now g perm p) = []" "queuedBytes (failStartup now g perm p) = 0"
    "Len (pstore (failStartup now g perm p)) = 0"
    "Get key (pstore p) = Some v \<Longrightarrow> closed (sess_heap (failStartup now g perm p) v)
        \<and> goroutineWG (sess_heap (failStartup now g perm p) v) = 0"
    "startupGeneration p = g \<Longrightarrow> \<not> startupRunning (failStartup now g perm p)
        \<and> \<not> backendRunning (failStartup now g perm p)"
    "startupBlockedUntil (failStartup now g perm p) =
       (if perm \<and> startupGeneration p = g then now + StartupFailureCooldown (opts p) else startupBlockedUntil p)"
    "backendReady (failStartup now g perm p) = backendReady p"
    "opts (failStartup now g perm p) = opts p"
  using assms Get_stored [of key "pstore p" v]
  by (simp_all add: failStartup_def failStartup_locked_def closeAllSessions_def Let_def CloseAll_spec proxy_invD Len_def gm_len_def Close_all time_Add_def)

text \<open>
  C16: A failed startup of the current generation leaves nothing pending: the queues are empty,
  every session that waited is closed with its goroutines ended, no startup is marked as
  running. After a permanent error every datagram of a client without a session is ignored
  until the cooldown has passed; after a transient one the cooldown is unchanged, so the
  next recognised datagram may start the server again.
\<close>

theorem startup_failure_cleans_up:
  assumes "proxy_inv k p" "ctx_err p = None" "startupGeneration p = g"
    "p' = startup_goroutine_end now now' (Some e) g p"
  shows "queues p' = [] \<and> queuedBytes p' = 0 \<and> (\<forall>key. Get key (pstore p') = None)
       \<and> (\<forall>key v. Get key (pstore p) = Some v \<longrightarrow> closed (sess_heap p' v) \<and> goroutineWG (sess_heap p' v) = 0)
       \<and> \<not> startupRunning p' \<and> \<not> backendRunning p' \<and> backendReady p' = backendReady p
       \<and> (\<forall>env key d. IsPermanent (Some e) \<and> pe_gate_now env < now + StartupFailureCooldown (opts p) \<longrightarrow>
            handleClientPacket env key d p' = p')
       \<and> (\<not> IsPermanent (Some e) \<longrightarrow> startupBlockedUntil p' = startupBlockedUntil p)"
proof -
  let ?f = "failStartup now g (IsPermanent (Some e)) p"
  have p': "p' = ?f\<lparr>startups := remove1 g (startups ?f)\<rparr>"
    using assms(2,4) by (simp add: startup_goroutine_end_def Let_def)
  note f = failStartup_effect [OF assms(1)]
  have inv: "proxy_inv k p'"
    unfolding p' by (intro proxy_inv_startups proxy_inv_failStartup assms(1))
  have none: "Get key (pstore p') = None" for key
    using st.len_zero [OF proxy_invD(2) [OF inv]] by (simp add: p' f(3))
  have "handleClientPacket env key d p' = p'"
    if "IsPermanent (Some e)" "pe_gate_now env < now + StartupFailureCooldown (opts p)" for env key d
    using that assms(3) none [of key]
    by (cases "d = []") (simp_all add: handleClientPacket_def try_existing_eq admit_def p' f(6) time_Before_def)
  then show ?thesis using none assms(3) f by (auto simp: p')
qed

theorem startup_failure_cleans_up_witness:
  "queues (startup_goroutine_end 0 0 (Some (PermanentError (ErrText ''http status 401''))) 1 ex_pending) = []"
  using startup_failure_cleans_up [OF ex_pending_inv ex_pending_fields(8,10) refl] by blast

section \<open>Auto-stop\<close>





section \<open>The sweeper\<close>

lemma refresh_each_at:
  "distinct vs \<Longrightarrow> refresh_each tm vs h v = (if v \<in> set vs then snd (RecordActivity (tm v) (h v)) else h v)"
  by (induction vs arbitrary: h) auto

lemma scheduleAutoStop_frame [simp]:
  "pstore (scheduleAutoStop p) = pstore p" "sess_heap (scheduleAutoStop p) = sess_heap p"
  "queues (scheduleAutoStop p) = queues p" "backendReady (scheduleAutoStop p) = backendReady p"
  "opts (scheduleAutoStop p) = opts p" "shuttingDown (scheduleAutoStop p) = shuttingDown p"
  "startupRunning (scheduleAutoStop p) = startupRunning p" "startups (scheduleAutoStop p) = startups p"
  "startupGeneration (scheduleAutoStop p) = startupGeneration p" "next_sid (scheduleAutoStop p) = next_sid p"
  "watchers (scheduleAutoStop p) = watchers p" "ctx_err (scheduleAutoStop p) = ctx_err p"
  "backendRunning (scheduleAutoStop p) = backendRunning p"
  "readinessGeneration (scheduleAutoStop p) = readinessGeneration p"
  by (simp_all add: scheduleAutoStop_def scheduleAutoStopAttemptLocked_def Let_def)

definition autoStop_armed :: "proxy \<Rightarrow> bool" where
  "autoStop_armed p \<longleftrightarrow> (\<exists>t \<in> set (armed p). timer_attempt t = 1 \<and> timer_delay t = AutoStopDelay (opts p)
     \<and> timer_generation t = stopGeneration p \<and> stopTimer p = Some (timer_id t))"

lemma scheduleAutoStop_armed:
  "\<not> shuttingDown p \<Longrightarrow> backendReady p \<Longrightarrow> autoStop_armed (scheduleAutoStop p)"
  by (simp add: autoStop_armed_def scheduleAutoStop_def scheduleAutoStopAttemptLocked_def Let_def)

lemma expireIdleSessions_eq:
  fixes tm :: "sid \<Rightarrow> time" and now :: time
  assumes "proxy_inv k p"
  defines "h \<equiv> sess_heap (refreshPendingSessions tm p)"
    and "cutoff \<equiv> now - IdleTimeout (opts p)"
  defines "m \<equiv> filter (\<lambda>e. \<not> idle_before cutoff (h (snd e))) (sessions (pstore p))"
  shows "sessions (pstore (expireIdleSessions tm now p)) = m"
    "gm_len m \<noteq> 0 \<or> m = sessions (pstore p) \<Longrightarrow> armed (expireIdleSessions tm now p) = armed p"
    "m = [] \<Longrightarrow> sessions (pstore p) \<noteq> [] \<Longrightarrow> backendReady p \<Longrightarrow> autoStop_armed (expireIdleSessions tm now p)"
    "\<not> idle_before cutoff (h v) \<Longrightarrow> sess_heap (expireIdleSessions tm now p) v = h v"
proof -
  let ?gone = "int (length (filter (\<lambda>e. idle_before cutoff (h (snd e))) (sessions (pstore p))))"
  have o': "opts (refreshPendingSessions tm p) = opts p" "pstore (refreshPendingSessions tm p) = pstore p"
      "armed (refreshPendingSessions tm p) = armed p" "shuttingDown (refreshPendingSessions tm p) = shuttingDown p"
      "backendReady (refreshPendingSessions tm p) = backendReady p"
    by (simp_all add: refreshPendingSessions_def)
  define q where "q = (refreshPendingSessions tm p)\<lparr>pstore := (pstore p)\<lparr>sessions := m\<rparr>,
      sess_heap := (\<lambda>v. if v \<in> snd ` set (sessions (pstore p)) \<and> idle_before cutoff (h v)
         then snd (Close (snd (TryExpire cutoff (h v)))) else h v)\<rparr>"
  have eq: "expireIdleSessions tm now p =
      (let p3 = (if ?gone > 0 then removeClosedQueues q else q)
       in if ?gone > 0 \<and> gm_len m = 0 then scheduleAutoStop p3 else p3)"
    using ExpireIdle_spec [OF proxy_invD(7) [OF assms(1)], of cutoff h]
    by (simp add: expireIdleSessions_def o' Let_def q_def m_def h_def cutoff_def time_Add_def)
  have gone: "?gone = gm_len (sessions (pstore p)) - gm_len m"
    unfolding m_def by (rule length_filter_compl)
  have m0: "gm_len m = 0 \<longleftrightarrow> m = []" by (simp add: gm_len_def)
  have sd: "\<not> shuttingDown p" if "backendReady p"
    using proxy_invD(6) [OF assms(1)] that by (auto simp: gate_inv_def)
  show "sessions (pstore (expireIdleSessions tm now p)) = m"
    by (simp add: eq Let_def q_def)
  show "armed (expireIdleSessions tm now p) = armed p" if "gm_len m \<noteq> 0 \<or> m = sessions (pstore p)"
    using that gone unfolding eq by (auto simp: Let_def q_def o')
  show "autoStop_armed (expireIdleSessions tm now p)"
    if "m = []" "sessions (pstore p) \<noteq> []" "backendReady p"
    using that gone sd unfolding eq
    by (auto simp: Let_def m0 gm_len_def intro!: scheduleAutoStop_armed) (simp_all add: q_def o')
  show "sess_heap (expireIdleSessions tm now p) v = h v" if "\<not> idle_before cutoff (h v)"
    using that by (simp add: eq Let_def q_def)
qed

text \<open>
  C19: A sweep at time \<open>now\<close> keeps a stored session exactly when it is already closed (its
  watcher removes it), or was active within the idle timeout; a session with packets
  waiting for the startup counts as active at the moment the sweep refreshes it, so it
  survives when that is within the timeout. When the sweep takes out the last session while
  the gate is open, the auto-stop timer is armed with the configured delay; a sweep that
  leaves a session or removes none leaves the timers alone.
\<close>

theorem sweep_exact:
  assumes "proxy_inv k p"
  shows "(\<forall>key v. Get key (pstore p) = Some v \<longrightarrow>
       (Get key (pstore (expireIdleSessions tm now p)) = Some v \<longleftrightarrow>
          closed (sess_heap p v)
          \<or> now - IdleTimeout (opts p) \<le>
             (if v \<in> fst ` set (queues p) then time_Unix_nano (UnixNano (tm v)) else LastActivity (sess_heap p v))))
     \<and> (\<forall>key v. Get key (pstore p) = Some v \<and> v \<in> fst ` set (queues p) \<and> nano_range (tm v)
          \<and> now - IdleTimeout (opts p) \<le> tm v \<longrightarrow>
            Get key (pstore (expireIdleSessions tm now p)) = Some v
            \<and> closed (sess_heap (expireIdleSessions tm now p) v) = closed (sess_heap p v))
     \<and> (Len (pstore p) \<noteq> 0 \<and> Len (pstore (expireIdleSessions tm now p)) = 0 \<and> backendReady p \<longrightarrow>
          autoStop_armed (expireIdleSessions tm now p))
     \<and> (Len (pstore (expireIdleSessions tm now p)) \<noteq> 0
          \<or> pstore (expireIdleSessions tm now p) = pstore p \<longrightarrow> armed (expireIdleSessions tm now p) = armed p)"
proof -
  let ?c = "now - IdleTimeout (opts p)" and ?h = "sess_heap (refreshPendingSessions tm p)"
  let ?p = "expireIdleSessions tm now p"
  note E = expireIdleSessions_eq [OF assms, where tm = tm and now = now]
  have wf: "distinct (map fst (queues p))" "gm_wf (sessions (pstore p))"
    using proxy_invD(3,7) [OF assms] by (auto simp: queue_inv_def store_inv_def gm_wf_def)
  have h: "?h v = (if v \<in> fst ` set (queues p) then snd (RecordActivity (tm v) (sess_heap p v)) else sess_heap p v)" for v
    using wf(1) by (simp add: refreshPendingSessions_def refresh_each_at)
  have idle: "\<not> idle_before ?c (?h v) \<longleftrightarrow> closed (sess_heap p v) \<or> ?c \<le>
       (if v \<in> fst ` set (queues p) then time_Unix_nano (UnixNano (tm v)) else LastActivity (sess_heap p v))" for v
    by (auto simp: h idle_before_def RecordActivity_def touch_def LastActivity_def)
  have get: "Get key (pstore ?p) = Some v \<longleftrightarrow> \<not> idle_before ?c (?h v)" if "Get key (pstore p) = Some v" for key v
    using that wf(2) by (simp add: Get_def E(1) map_of_store_filter)
  have cl: "closed (sess_heap ?p v) = closed (sess_heap p v)" if "\<not> idle_before ?c (?h v)" for v
    unfolding E(4) [OF that] by (simp add: h RecordActivity_def touch_def)
  show ?thesis
    using E(1-3) get idle cl by (auto simp: UnixNano_roundtrip Len_def gm_len_def)
qed

theorem sweep_exact_witness:
  "Get ''a'' (pstore (expireIdleSessions (\<lambda>_. unix_epoch) unix_epoch ex_pending)) = Some 0"
proof -
  have "nano_range unix_epoch" by (simp add: nano_range_def go_time)
  moreover have "Get ''a'' (pstore ex_pending) = Some 0" "0 \<in> fst ` set (queues ex_pending)"
    "unix_epoch - IdleTimeout (opts ex_pending) \<le> unix_epoch"
    by (simp_all add: ex_pending_fields ex_pending_queues Get_def default_options_eq ex_popts_def go_time)
  ultimately show ?thesis
    using sweep_exact [OF ex_pending_inv, of "\<lambda>_. unix_epoch" unix_epoch] by blast
qed

section \<open>The health monitor\<close>

text \<open>
  A tick that counts against generation \<open>g\<close>: the gate is open in that generation when the
  tick samples it and when it evaluates the probe's answer, which is a conclusive failure.
\<close>

definition health_failure :: "uint64 \<Rightarrow> proxy \<times> goerror option \<times> proxy \<Rightarrow> bool" where
  "health_failure g t = (case t of (sampled, err, found) \<Rightarrow>
     backendReady sampled \<and> readinessGeneration sampled = g \<and> backendReady found
     \<and> readinessGeneration found = g \<and> ctx_err found = None
     \<and> err \<noteq> None \<and> \<not> backendReadinessInconclusive err)"

text \<open>The failures counted so far are the most recent ticks, all of one generation.\<close>

definition counted :: "(proxy \<times> goerror option \<times> proxy) list \<Rightarrow> backendHealthFailures \<Rightarrow> bool" where
  "counted prev f \<longleftrightarrow> hf_count f \<in> {0, 1, 2} \<and> nat (hf_count f) \<le> length prev
     \<and> (\<forall>t \<in> set (take (nat (hf_count f)) prev). health_failure (hf_generation f) t)"

definition strike :: "uint64 \<Rightarrow> backendHealthFailures \<Rightarrow> uint64 option \<times> backendHealthFailures" where
  "strike g f = (let n = (if hf_generation f = g then hf_count f else 0) + 1
     in if n < 3 then (None, \<lparr>hf_generation = g, hf_count = n\<rparr>) else (Some g, hf_zero))"

lemma hf_reset_zero [simp]: "hf_reset f = hf_zero"
  by (simp add: hf_reset_def hf_zero_def)

lemma monitor_fail:
  assumes "health_failure g t"
  shows "runBackendHealthMonitor (t # ts) f = fst (strike g f) # runBackendHealthMonitor ts (snd (strike g f))"
  using assms by (cases t, cases f)
    (auto simp: health_failure_def monitor_sample_def monitor_evaluate_def hf_record_def strike_def Let_def
      backendHealthFailureThreshold_def)

lemma monitor_other:
  assumes "\<forall>g. \<not> health_failure g t"
  shows "runBackendHealthMonitor (t # ts) f = None # runBackendHealthMonitor ts hf_zero
     \<or> runBackendHealthMonitor (t # ts) f = []"
  using assms by (cases t) (auto simp: health_failure_def monitor_sample_def monitor_evaluate_def)

lemma counted_zero [simp]: "counted prev hf_zero"
  by (simp add: counted_def hf_zero_def)

lemma counted_strike:
  assumes "counted prev f" "health_failure g t"
  shows "counted (t # prev) (snd (strike g f))"
    "fst (strike g f) = Some g' \<Longrightarrow> g' = g \<and> 2 \<le> length prev \<and> (\<forall>u \<in> set (take 3 (t # prev)). health_failure g u)"
  using assms by (auto simp: counted_def strike_def Let_def hf_zero_def numeral_3_eq_3 numeral_2_eq_2
      split: if_splits)

lemma monitor_sound:
  assumes "counted prev f" "i < length (runBackendHealthMonitor ts f)" "runBackendHealthMonitor ts f ! i = Some g"
  shows "3 \<le> length (rev (take (Suc i) ts) @ prev)
       \<and> (\<forall>u \<in> set (take 3 (rev (take (Suc i) ts) @ prev)). health_failure g u)"
  using assms
proof (induction ts arbitrary: prev f i)
  case (Cons t ts)
  show ?case
  proof (cases "\<exists>h. health_failure h t")
    case True
    then obtain h where h: "health_failure h t" by blast
    note run = monitor_fail [OF h, of ts f] and cs = counted_strike [OF Cons.prems(1) h]
    show ?thesis
    proof (cases i)
      case 0
      with cs(2) Cons.prems run show ?thesis by auto
    next
      case (Suc j)
      with Cons.IH [OF cs(1), of j] Cons.prems run show ?thesis by simp
    qed
  next
    case False
    then have "runBackendHealthMonitor (t # ts) f = None # runBackendHealthMonitor ts hf_zero"
      using monitor_other [of t ts f] Cons.prems by auto
    with Cons.prems Cons.IH [of "t # prev" hf_zero] show ?thesis by (cases i) auto
  qed
qed simp

lemma monitor_three:
  assumes "counted prev f" "health_failure g t1" "health_failure g t2" "health_failure g t3"
  shows "\<exists>j < 3. runBackendHealthMonitor (t1 # t2 # t3 # ts) f ! j = Some g"
proof -
  have "hf_count f \<in> {0, 1, 2}" using assms(1) by (simp add: counted_def)
  then show ?thesis
    unfolding monitor_fail [OF assms(2)] monitor_fail [OF assms(3)] monitor_fail [OF assms(4)]
    by (auto simp: strike_def Let_def numeral_3_eq_3 Ex_less_Suc2)
qed

lemma monitor_complete:
  assumes "counted prev f" "i + 2 < length ts" "i + 2 < length (runBackendHealthMonitor ts f)"
    "health_failure g (ts ! i)" "health_failure g (ts ! (i + 1))" "health_failure g (ts ! (i + 2))"
  shows "\<exists>j \<in> {i..i + 2}. runBackendHealthMonitor ts f ! j = Some g"
  using assms
proof (induction i arbitrary: ts prev f)
  case 0
  then have "Suc (Suc (Suc 0)) \<le> length ts" by simp
  then obtain t1 t2 t3 us where "ts = t1 # t2 # t3 # us"
    unfolding Suc_le_length_iff by blast
  with monitor_three [OF 0(1), of g t1 t2 t3 us] 0 show ?case
    by (auto simp: numeral_2_eq_2 less_Suc_eq_le numeral_3_eq_3)
next
  case (Suc i)
  then obtain t us where ts: "ts = t # us" by (cases ts) auto
  obtain prev' f' d where "runBackendHealthMonitor ts f = d # runBackendHealthMonitor us f'" "counted prev' f'"
    using monitor_fail [of _ t us f] monitor_other [of t us f] counted_strike(1) [OF Suc.prems(1), of _ t]
      counted_zero Suc.prems(3) unfolding ts by fastforce
  with Suc.IH [of prev' f' us] Suc.prems obtain j where "j \<in> {i..i + 2}" "runBackendHealthMonitor us f' ! j = Some g"
    by (auto simp: ts)
  with \<open>runBackendHealthMonitor ts f = _\<close> show ?case by (intro bexI [of _ "Suc j"]) auto
qed

text \<open>
  C18: The health monitor closes the gate of a generation only when the last three ticks were
  all conclusive probe failures of that same generation (a success, an inconclusive answer
  or a change of the gate in between starts the count anew), and three such failures in a
  row always close it by the third.
\<close>

theorem monitor_needs_three_failures:
  assumes "ds = runBackendHealthMonitor ticks hf_zero"
  shows "(\<forall>i g. i < length ds \<and> ds ! i = Some g \<longrightarrow> 2 \<le> i \<and> (\<forall>j \<in> {i - 2..i}. health_failure g (ticks ! j)))
       \<and> (\<forall>i g. i + 2 < length ds \<and> (\<forall>j \<in> {i..i + 2}. health_failure g (ticks ! j)) \<longrightarrow>
             (\<exists>j \<in> {i..i + 2}. ds ! j = Some g))"
proof -
  have len: "length (runBackendHealthMonitor ts f) \<le> length ts" for ts f
    by (induction ts f rule: runBackendHealthMonitor.induct) (auto split: prod.split option.split)
  have sound: "2 \<le> i \<and> (\<forall>j \<in> {i - 2..i}. health_failure g (ticks ! j))" if i: "i < length ds" "ds ! i = Some g" for i g
  proof -
    have il: "i < length ticks" using i(1) len [of ticks hf_zero] assms by simp
    have s: "3 \<le> length (rev (take (Suc i) ticks)) \<and> (\<forall>u \<in> set (take 3 (rev (take (Suc i) ticks))). health_failure g u)"
      using monitor_sound [of "[]" hf_zero i ticks g] i assms by simp
    then have "2 \<le> i" using il by simp
    moreover have "health_failure g (ticks ! j)" if "j \<in> {i - 2..i}" for j
    proof -
      have "take 3 (rev (take (Suc i) ticks)) ! (i - j) = ticks ! j" "i - j < length (take 3 (rev (take (Suc i) ticks)))"
        using that il \<open>2 \<le> i\<close> by (auto simp: rev_nth)
      then show ?thesis using s by (metis nth_mem)
    qed
    ultimately show ?thesis by blast
  qed
  moreover have "\<exists>j \<in> {i..i + 2}. ds ! j = Some g"
    if "i + 2 < length ds" "\<forall>j \<in> {i..i + 2}. health_failure g (ticks ! j)" for i g
    using that len [of ticks hf_zero] unfolding assms
    by (intro monitor_complete [OF counted_zero]) auto
  ultimately show ?thesis by blast
qed

lemma ex_ready_failure: "health_failure (readinessGeneration ex_ready) (ex_ready, Some DeadlineExceeded, ex_ready)"
proof -
  have "ctx_err ex_ready = None"
    by (simp add: ex_ready_def openStartupGate_def openStartupGate_locked_def Let_def ex_pending_fields Len_def gm_len_def)
  then show ?thesis
    by (simp add: health_failure_def ex_ready_fields backendReadinessInconclusive_def)
qed

theorem monitor_needs_three_failures_witness:
  "\<exists>j \<in> {0..2}. runBackendHealthMonitor (replicate 3 (ex_ready, Some DeadlineExceeded, ex_ready)) hf_zero ! j
      = Some (readinessGeneration ex_ready)"
proof -
  let ?t = "(ex_ready, Some DeadlineExceeded, ex_ready)"
  have "length (runBackendHealthMonitor (replicate 3 ?t) hf_zero) = 3"
    by (simp add: numeral_3_eq_3 monitor_fail [OF ex_ready_failure] del: runBackendHealthMonitor.simps(2))
  then show ?thesis
    using monitor_needs_three_failures [OF refl, of "replicate 3 ?t", THEN conjunct2, rule_format,
        of 0 "readinessGeneration ex_ready"] ex_ready_failure by (auto simp: numeral_2_eq_2)
qed

section \<open>Shutdown\<close>

lemma shutdown_effect:
  assumes "proxy_inv k p"
  shows "shuttingDown (shutdown p)" "\<not> backendReady (shutdown p)" "\<not> startupRunning (shutdown p)"
    "stopTimer (shutdown p) = None" "Len (pstore (shutdown p)) = 0"
    "startupGeneration (shutdown p) = startupGeneration p + 1" "stopGeneration (shutdown p) = stopGeneration p + 1"
    "Get key (pstore p) = Some v \<Longrightarrow> closed (sess_heap (shutdown p) v) \<and> goroutineWG (sess_heap (shutdown p) v) = 0"
    "startups (shutdown p) = startups p" "opts (shutdown p) = opts p"
  using assms Get_stored [of key "pstore p" v]
  by (auto simp: shutdown_def shutdown_locked_def closeAllSessions_def Let_def CloseAll_spec proxy_invD Len_def gm_len_def Close_all)

text \<open>
  Shutdown is final: it leaves no session stored and every session it found closed with
  its goroutines ended, the gate closed and no startup or timer current; afterwards a
  startup that still runs cannot open the gate, no startup can begin, no auto-stop can be
  scheduled, and no auto-stop callback, whatever generation it holds, sends a stop request.
\<close>

theorem shutdown_final:
  assumes "proxy_inv k p" "q = shutdown p"
  shows "(\<forall>key. Get key (pstore q) = None) \<and> \<not> backendReady q \<and> stopTimer q = None \<and> \<not> startupRunning q
       \<and> (\<forall>key v. Get key (pstore p) = Some v \<longrightarrow> closed (sess_heap q v) \<and> goroutineWG (sess_heap q v) = 0)
       \<and> (\<forall>tm wr. openStartupGate tm wr q = q) \<and> (\<forall>now. startServer now q = q) \<and> scheduleAutoStop q = q
       \<and> (\<forall>now now' g. finishStartup now now' g q = q)
       \<and> (\<forall>r g attempt. runAutoStopAttempt r g attempt q = (False, q))"
proof -
  note e = shutdown_effect [OF assms(1), folded assms(2)]
  have "store_ok (pstore q) (sess_heap q)"
    unfolding assms(2) by (rule proxy_invD(2) [OF proxy_inv_shutdown [OF assms(1)]])
  then have "\<forall>key. Get key (pstore q) = None" using e(5) st.len_zero by blast
  moreover have "q\<lparr>startupRunning := False\<rparr> = q" using e(3) by (cases q) simp
  ultimately show ?thesis using e
    by (auto simp: openStartupGate_def openStartupGate_locked_def startServer_def scheduleAutoStop_def finishStartup_def
        completeStartup_def Let_def runAutoStopAttempt_def autoStopAllowed_def)
qed

theorem shutdown_final_witness:
  "\<not> backendReady (shutdown ex_ready) \<and> closed (sess_heap (shutdown ex_ready) 0)"
  using shutdown_final [OF ex_ready_inv refl]
  by (auto simp: ex_ready_fields ex_pending_fields Get_def dest!: spec [of _ "''a''"] spec [of _ 0])

section \<open>Capacity\<close>

text \<open>
  At capacity a new client's datagram is dropped without any effect but on the time of
  the last warning, and warnings come at most once a second: a second full-store datagram
  less than a second after a logged one changes nothing at all.
\<close>

theorem full_store_drops:
  assumes "d \<noteq> []" "Get key (pstore p) = None" "store_max (pstore p) \<le> Len (pstore p)"
  shows "(\<exists>t. handleClientPacket env key d p = p\<lparr>lastCapacityWarning := t\<rparr>)
       \<and> (lastCapacityWarning p \<noteq> time_zero \<and> pe_warn_now env - lastCapacityWarning p < second \<longrightarrow>
            handleClientPacket env key d p = p)"
proof -
  have "GetOrCreate key (session_factory env key p) (pstore p) (sess_heap p)
      = ((None, False, Len (pstore p), Some ErrSessionCapacity), pstore p, sess_heap p)"
    using assms(2,3) by (simp add: GetOrCreate_def Get_def Len_def)
  then have a: "handleClientPacket env key d p = p \<or>
      handleClientPacket env key d p = snd (shouldLogCapacityWarning (pe_warn_now env) p)"
    using assms(1,2) by (auto simp: handleClientPacket_unknown admit_def Let_def)
  have same: "p = p\<lparr>lastCapacityWarning := lastCapacityWarning p\<rparr>" by simp
  have w: "snd (shouldLogCapacityWarning now p) =
     (if lastCapacityWarning p \<noteq> time_zero \<and> now - lastCapacityWarning p < second then p
      else p\<lparr>lastCapacityWarning := now\<rparr>)" for now
    using time_Sub_less_iff [of second now "lastCapacityWarning p"]
    by (simp add: shouldLogCapacityWarning_def time_IsZero_def) (simp add: go_time)
  show ?thesis
  proof (rule conjI)
    show "\<exists>t. handleClientPacket env key d p = p\<lparr>lastCapacityWarning := t\<rparr>"
      using a same unfolding w by (metis (full_types))
    show "lastCapacityWarning p \<noteq> time_zero \<and> pe_warn_now env - lastCapacityWarning p < second \<longrightarrow>
        handleClientPacket env key d p = p"
      using a unfolding w by auto
  qed
qed

theorem full_store_drops_witness:
  "\<exists>t. handleClientPacket ex_env ''c'' [1] ex_ready = ex_ready\<lparr>lastCapacityWarning := t\<rparr>"
  using full_store_drops [of "[1]" "''c''" ex_ready ex_env]
  by (simp add: ex_ready_fields ex_pending_fields Get_def Len_def gm_len_def)

section \<open>Where an idle backend keeps running\<close>

text \<open>
  C38: A path that leaves the backend running without sessions and without an auto-stop timer:
  a datagram of the only client arrives when its session has closed but not yet been
  removed; the handler removes the session itself, and when the dial for the replacement
  then fails, the store is empty, the gate open and nothing armed; the watcher of the old
  session, which would have armed the timer, no longer finds it and arms nothing.
\<close>

theorem stale_session_loses_autostop:
  assumes "proxy_inv k p" "backendReady p" "d \<noteq> []" "sessions (pstore p) = [(key, v)]"
    "closed (sess_heap p v)" "armed p = []" "\<forall>a. pe_dial env a = Some e"
    "\<not> time_Before (pe_gate_now env) (startupBlockedUntil p)"
  shows "(let p1 = handleClientPacket env key d p; p2 = watchSession_body key v p1
     in backendReady p1 \<and> Len (pstore p1) = 0 \<and> armed p1 = []
      \<and> backendReady p2 \<and> Len (pstore p2) = 0 \<and> armed p2 = [])"
proof -
  have get: "Get key (pstore p) = Some v" using assms(4) by (simp add: Get_def)
  have fq: "forwardOrQueue a b c v d p = (False, p)" for a b c
    using assms(2,5) by (simp add: forwardOrQueue_def closed_ForwardClient)
  define q where "q = drop_stale key v p"
  have q: "sessions (pstore q) = []" "backendReady q" "armed q = []" "opts q = opts p"
      "startupBlockedUntil q = startupBlockedUntil p" "store_max (pstore q) = store_max (pstore p)" "store_inv (pstore q)"
    using assms(2,4,6) proxy_invD(7) [OF assms(1)]
    by (auto simp: q_def drop_stale_def Remove_def Close_def Let_def store_inv_def gm_len_def)
  obtain l b where o': "Listener (opts p) = Some l" "BackendAddr (opts p) = Some b" "1 \<le> MaxPacketSize (opts p)"
    using proxy_invD(1) [OF assms(1)] by (auto simp: opts_ok_def)
  have "handleClientPacket env key d p = admit env key d q"
    using assms(3) get by (simp add: handleClientPacket_def try_existing_eq fq q_def)
  also have "\<dots> = q \<or> \<dots> = snd (shouldLogCapacityWarning (pe_warn_now env) q)"
    using q o' assms(7,8)
    by (simp add: admit_def GetOrCreate_def session_factory_def NewSession_def gm_len_def store_inv_def Let_def)
  finally have h: "handleClientPacket env key d p \<in> {q, q\<lparr>lastCapacityWarning := pe_warn_now env\<rparr>}"
    by (auto simp: shouldLogCapacityWarning_def split: if_splits)
  have "watchSession_body key v r = removeQueue v r" if "sessions (pstore r) = []" for r
    using that by (simp add: watchSession_body_def watch_remove_def Remove_def Let_def)
  then show ?thesis using q h by (auto simp: Len_def gm_len_def Let_def)
qed

definition ex_stale :: proxy where
  "ex_stale = ex_proxy\<lparr>pstore := \<lparr>store_max = 2, sessions = [(''a'', 0)]\<rparr>, next_sid := 1, backendReady := True,
     backendRunning := True, watchers := [(''a'', 0)],
     sess_heap := (\<lambda>_. blank_session)(0 := snd (Close blank_session))\<rparr>"

lemma ex_stale_inv: "proxy_inv 0 ex_stale"
  using ex_proxy_inv
  by (auto simp: ex_stale_def proxy_inv_parts ex_proxy_fields store_ok_def store_inv_def gm_wf_def gm_len_def
      heap_inv_def sess_inv_Close)

theorem stale_session_loses_autostop_witness:
  "armed (watchSession_body ''a'' 0 (handleClientPacket (ex_env\<lparr>pe_dial := (\<lambda>_. Some DeadlineExceeded)\<rparr>) ''a'' [1] ex_stale)) = []"
  using stale_session_loses_autostop [OF ex_stale_inv, of "[1]" "''a''" 0 "ex_env\<lparr>pe_dial := (\<lambda>_. Some DeadlineExceeded)\<rparr>"]
    ex_gate Close_all(2) [OF sess_inv_blank]
  by (simp add: ex_stale_def ex_proxy_fields ex_env_def Let_def)

text \<open>
  Without a readiness check a backend found running when the proxy starts is adopted with
  the gate open and no session, but unlike the opening of the gate by a startup this arms
  no auto-stop timer: until a client comes and goes, the idle backend is never stopped.
\<close>

theorem adopted_backend_has_no_autostop:
  assumes "New o' = Inr p" "\<not> has_Readiness o'"
  shows "(let p1 = Serve_begin ctxe now (Inr StateRunning) p
     in backendReady p1 \<and> Len (pstore p1) = 0 \<and> armed p1 = [] \<and> startups p1 = [])
   \<and> autoStop_armed (openStartupGate tm wr p)"
proof -
  have f: "opts p = default_options o'" "pstore p = \<lparr>store_max = MaxSessions o', sessions = []\<rparr>"
      "armed p = []" "startups p = []" "\<not> shuttingDown p" "\<not> backendReady p"
    using New_cases [of o'] assms(1) by (auto split: if_splits)
  then show ?thesis using assms(2)
    by (simp add: Serve_begin_def Let_def Len_def gm_len_def default_options_eq openStartupGate_def openStartupGate_locked_def scheduleAutoStop_armed)
qed

theorem adopted_backend_has_no_autostop_witness:
  "\<exists>p. New (ex_popts\<lparr>has_Readiness := False\<rparr>) = Inr p
     \<and> armed (Serve_begin None 0 (Inr StateRunning) p) = []"
proof -
  have "New_accepts (ex_popts\<lparr>has_Readiness := False\<rparr>)"
    using ex_accepts by (simp add: New_accepts_def)
  then obtain p where p: "New (ex_popts\<lparr>has_Readiness := False\<rparr>) = Inr p"
    using New_cases [of "ex_popts\<lparr>has_Readiness := False\<rparr>"] by auto
  then show ?thesis
    using adopted_backend_has_no_autostop [OF p, of None 0] by (auto simp: Let_def)
qed

end
