(* ===== verification/ProxySystem.thy ===== *)
theory ProxySystem
  imports ProxyProps "HOL-Library.Sublist"
begin

text \<open>
  The goroutines of a serving proxy as one transition system: the listener with the handler
  of client packets, the startup goroutine, the auto-stop callbacks, the watchers of the
  sessions, the sweeper, the health monitor, the deferred shutdown, and the sessions' own
  goroutines. A step is one critical section of \<open>mu\<close> or one operation of the store or a
  session; what a goroutine has read and the locks it holds between two steps is its phase.
  \<open>admissionMu\<close> is the component \<open>adm\<close>; the read lock of \<open>forwardingMu\<close> is held in the
  listener's phases \<open>LQueued\<close> and \<open>LSend\<close>, the write lock together with \<open>admissionMu\<close> in
  \<open>HGate\<close> and \<open>HCloseAll\<close> or within a single step.
\<close>

section \<open>Phases\<close>

text \<open>
  The listener. \<open>LCall i\<close> is about to call \<open>forwardOrQueue\<close> for the \<open>i\<close>-th time: on the session
  found without the lock (0), on the one found under it (1), on the created one (2). The
  flag is the value of \<open>ready\<close> the handler has read.
\<close>

datatype lphase =
    LIdle
  | LFirst udp_addr bytes
  | LCall nat bool udp_addr bytes sid
  | LQueued nat bool udp_addr bytes sid
  | LSend nat bool udp_addr bytes sid
  | LLock udp_addr bytes
  | LLook udp_addr bytes
  | LStale udp_addr bytes sid
  | LStaleQ udp_addr bytes sid
  | LGate udp_addr bytes
  | LCreate bool udp_addr bytes
  | LCancel bool udp_addr bytes sid
  | LWatch bool udp_addr bytes sid
  | LStart bool
  | LDone

text \<open>
  Who holds \<open>admissionMu\<close>: the listener; an auto-stop callback with its stop request in
  flight (\<open>HStop\<close>) or accepted (\<open>HStopped\<close>); a startup that has opened the gate and not
  yet looked at the store; an operation that is about to close every session.
\<close>

datatype holder = Free | HListener | HStop timer | HStopped timer | HGate uint64 | HCloseAll

text \<open>Where the startup goroutine of a generation is in \<open>ensureRunning\<close> and after it.\<close>

datatype su_phase =
    SuPoll bool
  | SuStart
  | SuTick bool
  | SuWait
  | SuSettle
  | SuProbe
  | SuOpen
  | SuReturned "goerror option"
  | SuFail bool
  | SuFinish

datatype sw_phase = SwIdle | SwRefresh time "sid list" | SwQueues int int | SwSched bool

datatype m_phase =
    MIdle backendHealthFailures
  | MProbe uint64 backendHealthFailures
  | MClose uint64 backendHealthFailures

text \<open>
  The state: the proxy, the phases, the callbacks that wait for \<open>admissionMu\<close>, the watchers
  that have removed their session (with whether it was the last), the goroutines about to
  schedule an auto-stop or to restart the server, and the datagrams the listener has read.
\<close>

record sys =
  px :: proxy
  lst :: lphase
  adm :: holder
  suph :: "uint64 \<Rightarrow> su_phase"
  fired :: "timer list"
  wq :: "(sid \<times> bool) list"
  wsched :: nat
  fin :: nat
  swp :: sw_phase
  mon :: m_phase
  recv :: "(udp_addr \<times> bytes) list"

definition rlocked :: "lphase \<Rightarrow> bool" where
  "rlocked l = (case l of LQueued _ _ _ _ _ \<Rightarrow> True | LSend _ _ _ _ _ \<Rightarrow> True | _ \<Rightarrow> False)"

definition wlocked :: "holder \<Rightarrow> bool" where
  "wlocked h = (case h of HGate _ \<Rightarrow> True | HCloseAll \<Rightarrow> True | _ \<Rightarrow> False)"

text \<open>The result \<open>b\<close> of call \<open>i\<close> of \<open>forwardOrQueue\<close>: the listener's next phase and \<open>admissionMu\<close>.\<close>

definition after_call :: "nat \<Rightarrow> bool \<Rightarrow> udp_addr \<Rightarrow> bytes \<Rightarrow> sid \<Rightarrow> bool \<Rightarrow> sys \<Rightarrow> sys" where
  "after_call i ready key d v b s =
     (if i = 0 then s\<lparr>lst := (if b then LIdle else LLock key d)\<rparr>
      else if i = 1 then (if b then s\<lparr>lst := LIdle, adm := Free\<rparr> else s\<lparr>lst := LStale key d v\<rparr>)
      else s\<lparr>lst := LStart ready\<rparr>)"

definition unlock :: "sys \<Rightarrow> sys" where
  "unlock s = s\<lparr>lst := LIdle, adm := Free\<rparr>"

section \<open>The listener's steps\<close>

definition l_read :: "udp_addr \<Rightarrow> bytes \<Rightarrow> sys \<Rightarrow> sys" where
  "l_read key d s = s\<lparr>recv := recv s @ [(key, d)], lst := (if d = [] then LIdle else LFirst key d)\<rparr>"

definition l_get :: "udp_addr \<Rightarrow> bytes \<Rightarrow> sys \<Rightarrow> sys" where
  "l_get key d s = s\<lparr>lst := (case Get key (pstore (px s)) of None \<Rightarrow> LLock key d | Some v \<Rightarrow> LCall 0 False key d v)\<rparr>"

text \<open>The critical section of \<open>forwardOrQueue\<close>, entered with the read lock.\<close>

definition l_call :: "time \<Rightarrow> nat \<Rightarrow> bool \<Rightarrow> udp_addr \<Rightarrow> bytes \<Rightarrow> sid \<Rightarrow> sys \<Rightarrow> sys" where
  "l_call now i ready key d v s =
     (if \<not> backendReady (px s) then
        (case RecordActivity now (sess_heap (px s) v) of
           (Some e, a) \<Rightarrow> after_call i ready key d v False s
         | (None, a) \<Rightarrow>
             s\<lparr>px := enqueueLocked v d ((px s)\<lparr>sess_heap := (sess_heap (px s))(v := a)\<rparr>),
               lst := LQueued i ready key d v\<rparr>)
      else s\<lparr>lst := LSend i ready key d v\<rparr>)"

definition l_queued :: "time \<Rightarrow> nat \<Rightarrow> bool \<Rightarrow> udp_addr \<Rightarrow> bytes \<Rightarrow> sid \<Rightarrow> sys \<Rightarrow> sys" where
  "l_queued now i ready key d v s = after_call i ready key d v True (s\<lparr>px := startServer now (px s)\<rparr>)"

definition l_send :: "time \<Rightarrow> goerror option \<Rightarrow> nat \<Rightarrow> bool \<Rightarrow> udp_addr \<Rightarrow> bytes \<Rightarrow> sid \<Rightarrow> sys \<Rightarrow> sys" where
  "l_send now wr i ready key d v s =
     (case ForwardClient now wr d (sess_heap (px s) v) of
        (e, a) \<Rightarrow> after_call i ready key d v (e = None)
                   (s\<lparr>px := (px s)\<lparr>sess_heap := (sess_heap (px s))(v := a)\<rparr>\<rparr>))"

definition l_look :: "udp_addr \<Rightarrow> bytes \<Rightarrow> sys \<Rightarrow> sys" where
  "l_look key d s = s\<lparr>lst := (case Get key (pstore (px s)) of None \<Rightarrow> LGate key d | Some v \<Rightarrow> LCall 1 False key d v)\<rparr>"

definition remove_session :: "udp_addr \<Rightarrow> sid \<Rightarrow> proxy \<Rightarrow> proxy" where
  "remove_session key v p =
     (let (r, st, h) = Remove key v (pstore p) (sess_heap p) in p\<lparr>pstore := st, sess_heap := h\<rparr>)"

definition l_gate :: "time \<Rightarrow> udp_addr \<Rightarrow> bytes \<Rightarrow> sys \<Rightarrow> sys" where
  "l_gate now key d s =
     (if time_Before now (startupBlockedUntil (px s)) then unlock s
      else if \<not> backendReady (px s) \<and> \<not> backendRunning (px s) \<and> \<not> detects (px s) d then unlock s
      else s\<lparr>lst := LCreate (backendReady (px s)) key d\<rparr>)"

definition l_create :: "packet_env \<Rightarrow> bool \<Rightarrow> udp_addr \<Rightarrow> bytes \<Rightarrow> sys \<Rightarrow> sys" where
  "l_create env ready key d s =
     (case GetOrCreate key (session_factory env key (px s)) (pstore (px s)) (sess_heap (px s)) of
        ((sess, created, n, Some err), st, h) \<Rightarrow>
          (let p1 = (px s)\<lparr>pstore := st, sess_heap := h\<rparr>
           in unlock (s\<lparr>px := (if errors_Is (Some err) ErrSessionCapacity
                               then snd (shouldLogCapacityWarning (pe_warn_now env) p1) else p1)\<rparr>))
      | ((None, created, n, None), st, h) \<Rightarrow> unlock s
      | ((Some v, created, n, None), st, h) \<Rightarrow>
          s\<lparr>px := (px s)\<lparr>pstore := st, sess_heap := h,
                         next_sid := (if created then next_sid (px s) + 1 else next_sid (px s))\<rparr>,
            lst := (if created then LCancel ready key d v else LCall 2 ready key d v)\<rparr>)"

definition l_end :: "time \<Rightarrow> bool \<Rightarrow> sys \<Rightarrow> sys" where
  "l_end now ready s = unlock (s\<lparr>px := (if ready then px s else startServer now (px s))\<rparr>)"

section \<open>The other goroutines' steps\<close>

definition u_status :: "uint64 \<Rightarrow> bool \<Rightarrow> (goerror + server_state) \<Rightarrow> sys \<Rightarrow> sys" where
  "u_status g sent answer s =
     (case answer of
        Inr StateRunning \<Rightarrow> s\<lparr>px := (px s)\<lparr>backendRunning := True\<rparr>, suph := (suph s)(g := SuWait)\<rparr>
      | Inr StateOffline \<Rightarrow>
          s\<lparr>px := markBackendNotRunning (px s), suph := (suph s)(g := (if sent then SuTick sent else SuStart))\<rparr>
      | Inr StateStarting \<Rightarrow> s\<lparr>px := markBackendNotRunning (px s), suph := (suph s)(g := SuTick True)\<rparr>
      | Inr StateStopping \<Rightarrow> s\<lparr>px := markBackendNotRunning (px s), suph := (suph s)(g := SuTick False)\<rparr>
      | Inl err \<Rightarrow>
          s\<lparr>suph := (suph s)(g := (if IsPermanent (Some err)
                                   then SuReturned (Some (Wrap ''query Pterodactyl status'' err)) else SuTick sent))\<rparr>)"

text \<open>
  The steps of a startup that touch no shared state: the start request, the tick, the wait
  for readiness, the settle delay, the recheck, and the decision after the return.
\<close>

fun su_local :: "options \<Rightarrow> goerror option \<Rightarrow> su_phase \<Rightarrow> goerror option \<Rightarrow> su_phase option" where
  "su_local o' ctxe SuStart r =
     Some (if r \<noteq> None \<and> IsPermanent r then SuReturned (map_option (Wrap ''start Pterodactyl server'') r)
           else SuTick True)"
| "su_local o' ctxe (SuTick sent) r =
     Some (case r of None \<Rightarrow> SuPoll sent | Some e \<Rightarrow> SuReturned (Some (Wrap ''wait for Pterodactyl running'' e)))"
| "su_local o' ctxe SuWait r =
     Some (if has_Readiness o' \<and> r \<noteq> None
           then SuReturned (map_option (Wrap ''wait for Palworld application readiness'') r) else SuSettle)"
| "su_local o' ctxe SuSettle r =
     Some (if StartupSettleDelay o' > 0 \<and> r \<noteq> None then SuReturned r else SuProbe)"
| "su_local o' ctxe SuProbe r =
     Some (if has_Readiness o' \<and> r \<noteq> None
           then SuReturned (map_option (Wrap ''recheck Palworld application readiness after settle'') r) else SuOpen)"
| "su_local o' ctxe (SuReturned err) r =
     Some (if err \<noteq> None \<and> ctxe = None then SuFail (IsPermanent err) else SuFinish)"
| "su_local o' ctxe ph r = None"

definition u_open ::
    "uint64 \<Rightarrow> (sid \<Rightarrow> nat \<Rightarrow> time) \<Rightarrow> (sid \<Rightarrow> nat \<Rightarrow> goerror option) \<Rightarrow> sys \<Rightarrow> sys" where
  "u_open g tm wr s =
     (case openStartupGate_locked tm wr (px s) of
        (False, p1) \<Rightarrow> s\<lparr>px := p1, suph := (suph s)(g := SuReturned None)\<rparr>
      | (True, p1) \<Rightarrow> s\<lparr>px := p1, adm := HGate g\<rparr>)"

definition u_gate :: "uint64 \<Rightarrow> sys \<Rightarrow> sys" where
  "u_gate g s =
     s\<lparr>px := (if Len (pstore (px s)) = 0 then scheduleAutoStop (px s) else px s),
       adm := Free, suph := (suph s)(g := SuReturned None)\<rparr>"

definition end_startup :: "uint64 \<Rightarrow> proxy \<Rightarrow> proxy" where
  "end_startup g p = p\<lparr>startups := remove1 g (startups p)\<rparr>"

definition u_fail :: "time \<Rightarrow> uint64 \<Rightarrow> bool \<Rightarrow> sys \<Rightarrow> sys" where
  "u_fail now g permanent s =
     s\<lparr>px := end_startup g (failStartup_locked now g permanent (px s)), adm := HCloseAll,
       suph := (suph s)(g := SuPoll False)\<rparr>"

definition u_finish :: "time \<Rightarrow> uint64 \<Rightarrow> sys \<Rightarrow> sys" where
  "u_finish now g s =
     (case completeStartup now g (px s) of
        (restart, p1) \<Rightarrow> s\<lparr>px := end_startup g p1, suph := (suph s)(g := SuPoll False),
                           fin := fin s + (if restart then 1 else 0)\<rparr>)"

definition t_done :: "proxy \<Rightarrow> proxy" where
  "t_done p = p\<lparr>timerWG := timerWG p - 1\<rparr>"

definition t_fire :: "timer \<Rightarrow> sys \<Rightarrow> sys" where
  "t_fire t s = s\<lparr>px := (px s)\<lparr>armed := remove1 t (armed (px s))\<rparr>, fired := fired s @ [t]\<rparr>"

definition t_lock :: "timer \<Rightarrow> sys \<Rightarrow> sys" where
  "t_lock t s =
     (let s1 = s\<lparr>fired := remove1 t (fired s)\<rparr>
      in if autoStopAllowed (timer_generation t) (px s1) then s1\<lparr>adm := HStop t\<rparr>
         else s1\<lparr>px := t_done (px s1)\<rparr>)"

definition t_accepted :: "timer \<Rightarrow> sys \<Rightarrow> sys" where
  "t_accepted t s = s\<lparr>px := markBackendNotRunning (px s), adm := HStopped t\<rparr>"

definition t_clear :: "timer \<Rightarrow> sys \<Rightarrow> sys" where
  "t_clear t s =
     s\<lparr>px := t_done (if timer_generation t = stopGeneration (px s) then (px s)\<lparr>stopTimer := None\<rparr> else px s),
       adm := Free\<rparr>"

definition t_failed :: "goerror \<Rightarrow> timer \<Rightarrow> sys \<Rightarrow> sys" where
  "t_failed e t s =
     s\<lparr>px := t_done (autoStopResult (Some e) (timer_generation t) (timer_attempt t) (px s)), adm := Free\<rparr>"

definition w_remove :: "udp_addr \<Rightarrow> sid \<Rightarrow> sys \<Rightarrow> sys" where
  "w_remove key v s =
     (let ((removed, remaining), p1) = watch_remove key v (px s)
      in s\<lparr>px := p1\<lparr>watchers := remove1 (key, v) (watchers p1)\<rparr>,
           wq := wq s @ [(v, removed \<and> remaining = 0)]\<rparr>)"

definition w_queue :: "sid \<Rightarrow> bool \<Rightarrow> sys \<Rightarrow> sys" where
  "w_queue v last_one s =
     s\<lparr>px := removeQueue v (px s), wq := remove1 (v, last_one) (wq s),
       wsched := wsched s + (if last_one \<and> ctx_err (px s) = None then 1 else 0)\<rparr>"

definition s_expire :: "time \<Rightarrow> sys \<Rightarrow> sys" where
  "s_expire now s =
     (let ((expired, remaining, err), st, h) =
            ExpireIdle (time_Add now (- IdleTimeout (opts (px s)))) (pstore (px s)) (sess_heap (px s))
      in s\<lparr>px := (px s)\<lparr>pstore := st, sess_heap := h\<rparr>, swp := SwQueues expired remaining\<rparr>)"

definition s_queues :: "int \<Rightarrow> int \<Rightarrow> sys \<Rightarrow> sys" where
  "s_queues expired remaining s =
     s\<lparr>px := (if expired > 0 then removeClosedQueues (px s) else px s),
       swp := SwSched (expired > 0 \<and> remaining = 0)\<rparr>"

definition m_eval :: "uint64 \<Rightarrow> goerror option \<Rightarrow> backendHealthFailures \<Rightarrow> sys \<Rightarrow> sys" where
  "m_eval g err f s =
     (case monitor_evaluate g err f (px s) of
        (close, f1) \<Rightarrow> s\<lparr>mon := (if close then MClose g f1 else MIdle f1)\<rparr>)"

definition m_close :: "uint64 \<Rightarrow> backendHealthFailures \<Rightarrow> sys \<Rightarrow> sys" where
  "m_close g f s =
     (case closeBackendGate_locked g (px s) of
        (closing, p1) \<Rightarrow> s\<lparr>px := p1, mon := MIdle f, adm := (if closing then HCloseAll else Free)\<rparr>)"

section \<open>The transition system\<close>

text \<open>The goroutine that takes a step.\<close>

datatype thread =
    Listener_thread
  | Startup_thread uint64
  | Restart_thread
  | Timer_thread timer
  | Watcher_thread sid
  | Sweeper_thread
  | Monitor_thread
  | Closing_thread
  | Main_thread
  | Session_thread sid
  | Environment

text \<open>What a session's own goroutines do.\<close>

definition session_own :: "session_event \<Rightarrow> bool" where
  "session_own ev = (case ev of BackendRead r now wr \<Rightarrow> True | ContextWatch b \<Rightarrow> True | _ \<Rightarrow> False)"

inductive sys_step :: "sys \<Rightarrow> thread \<Rightarrow> sys \<Rightarrow> bool" where
  step_read: "lst s = LIdle \<Longrightarrow> sys_step s Listener_thread (l_read key d s)"
| step_get: "lst s = LFirst key d \<Longrightarrow> sys_step s Listener_thread (l_get key d s)"
| step_call: "lst s = LCall i ready key d v \<Longrightarrow> \<not> wlocked (adm s) \<Longrightarrow>
    sys_step s Listener_thread (l_call now i ready key d v s)"
| step_queued: "lst s = LQueued i ready key d v \<Longrightarrow> sys_step s Listener_thread (l_queued now i ready key d v s)"
| step_send: "lst s = LSend i ready key d v \<Longrightarrow> sys_step s Listener_thread (l_send now wr i ready key d v s)"
| step_lock: "lst s = LLock key d \<Longrightarrow> adm s = Free \<Longrightarrow>
    sys_step s Listener_thread (s\<lparr>lst := LLook key d, adm := HListener\<rparr>)"
| step_look: "lst s = LLook key d \<Longrightarrow> sys_step s Listener_thread (l_look key d s)"
| step_stale: "lst s = LStale key d v \<Longrightarrow>
    sys_step s Listener_thread (s\<lparr>px := remove_session key v (px s), lst := LStaleQ key d v\<rparr>)"
| step_staleQ: "lst s = LStaleQ key d v \<Longrightarrow>
    sys_step s Listener_thread (s\<lparr>px := removeQueue v (px s), lst := LGate key d\<rparr>)"
| step_gate: "lst s = LGate key d \<Longrightarrow> sys_step s Listener_thread (l_gate now key d s)"
| step_create: "lst s = LCreate ready key d \<Longrightarrow> sys_step s Listener_thread (l_create env ready key d s)"
| step_cancel: "lst s = LCancel ready key d v \<Longrightarrow>
    sys_step s Listener_thread (s\<lparr>px := cancelAutoStop (px s), lst := LWatch ready key d v\<rparr>)"
| step_watch: "lst s = LWatch ready key d v \<Longrightarrow>
    sys_step s Listener_thread (s\<lparr>px := watchSession key v (px s), lst := LCall 2 ready key d v\<rparr>)"
| step_end: "lst s = LStart ready \<Longrightarrow> sys_step s Listener_thread (l_end now ready s)"
| step_status: "g \<in> set (startups (px s)) \<Longrightarrow> suph s g = SuPoll sent \<Longrightarrow>
    (answer \<in> {Inr StateOffline, Inr StateStarting, Inr StateStopping} \<longrightarrow>
       \<not> rlocked (lst s) \<and> \<not> wlocked (adm s)) \<Longrightarrow>
    sys_step s (Startup_thread g) (u_status g sent answer s)"
| step_local: "g \<in> set (startups (px s)) \<Longrightarrow> su_local (opts (px s)) (ctx_err (px s)) (suph s g) r = Some ph \<Longrightarrow>
    sys_step s (Startup_thread g) (s\<lparr>suph := (suph s)(g := ph)\<rparr>)"
| step_open: "g \<in> set (startups (px s)) \<Longrightarrow> suph s g = SuOpen \<Longrightarrow> adm s = Free \<Longrightarrow> \<not> rlocked (lst s) \<Longrightarrow>
    sys_step s (Startup_thread g) (u_open g tm wrs s)"
| step_opened: "adm s = HGate g \<Longrightarrow> sys_step s (Startup_thread g) (u_gate g s)"
| step_fail: "g \<in> set (startups (px s)) \<Longrightarrow> suph s g = SuFail permanent \<Longrightarrow> adm s = Free \<Longrightarrow>
    \<not> rlocked (lst s) \<Longrightarrow> sys_step s (Startup_thread g) (u_fail now g permanent s)"
| step_finish: "g \<in> set (startups (px s)) \<Longrightarrow> suph s g = SuFinish \<Longrightarrow>
    sys_step s (Startup_thread g) (u_finish now g s)"
| step_restart: "fin s = Suc n \<Longrightarrow>
    sys_step s Restart_thread (s\<lparr>px := startServer now (px s), fin := n\<rparr>)"
| step_closeAll: "adm s = HCloseAll \<Longrightarrow>
    sys_step s Closing_thread (s\<lparr>px := closeAllSessions (px s), adm := Free\<rparr>)"
| step_fire: "t \<in> set (armed (px s)) \<Longrightarrow> sys_step s (Timer_thread t) (t_fire t s)"
| step_tlock: "t \<in> set (fired s) \<Longrightarrow> adm s = Free \<Longrightarrow> sys_step s (Timer_thread t) (t_lock t s)"
| step_accepted: "adm s = HStop t \<Longrightarrow> \<not> rlocked (lst s) \<Longrightarrow> sys_step s (Timer_thread t) (t_accepted t s)"
| step_clear: "adm s = HStopped t \<Longrightarrow> sys_step s (Timer_thread t) (t_clear t s)"
| step_failed: "adm s = HStop t \<Longrightarrow> sys_step s (Timer_thread t) (t_failed e t s)"
| step_removed: "(key, v) \<in> set (watchers (px s)) \<Longrightarrow> done_closed (sess_heap (px s) v) \<Longrightarrow>
    sys_step s (Watcher_thread v) (w_remove key v s)"
| step_wqueue: "(v, b) \<in> set (wq s) \<Longrightarrow> sys_step s (Watcher_thread v) (w_queue v b s)"
| step_wsched: "wsched s = Suc n \<Longrightarrow>
    sys_step s (Watcher_thread v) (s\<lparr>px := scheduleAutoStop (px s), wsched := n\<rparr>)"
| step_sweep: "swp s = SwIdle \<Longrightarrow>
    sys_step s Sweeper_thread (s\<lparr>swp := SwRefresh now (map fst (queues (px s)))\<rparr>)"
| step_refresh: "swp s = SwRefresh now (v # vs) \<Longrightarrow>
    sys_step s Sweeper_thread (s\<lparr>px := (px s)\<lparr>sess_heap := (sess_heap (px s))
        (v := snd (RecordActivity now' (sess_heap (px s) v)))\<rparr>, swp := SwRefresh now vs\<rparr>)"
| step_expire: "swp s = SwRefresh now [] \<Longrightarrow> sys_step s Sweeper_thread (s_expire now s)"
| step_squeues: "swp s = SwQueues expired remaining \<Longrightarrow>
    sys_step s Sweeper_thread (s_queues expired remaining s)"
| step_ssched: "swp s = SwSched b \<Longrightarrow>
    sys_step s Sweeper_thread (s\<lparr>px := (if b then scheduleAutoStop (px s) else px s), swp := SwIdle\<rparr>)"
| step_sample: "mon s = MIdle f \<Longrightarrow> has_Readiness (opts (px s)) \<Longrightarrow>
    monitor_sample f (px s) = (r, f1) \<Longrightarrow>
    sys_step s Monitor_thread (s\<lparr>mon := (case r of None \<Rightarrow> MIdle f1 | Some g \<Rightarrow> MProbe g f1)\<rparr>)"
| step_eval: "mon s = MProbe g f \<Longrightarrow> ctx_err (px s) = None \<Longrightarrow> sys_step s Monitor_thread (m_eval g err f s)"
| step_close: "mon s = MClose g f \<Longrightarrow> adm s = Free \<Longrightarrow> \<not> rlocked (lst s) \<Longrightarrow>
    sys_step s Monitor_thread (m_close g f s)"
| step_leave: "lst s = LIdle \<Longrightarrow>
    sys_step s Main_thread (s\<lparr>lst := LDone,
        px := (px s)\<lparr>ctx_err := (case ctx_err (px s) of None \<Rightarrow> Some Canceled | Some e \<Rightarrow> Some e)\<rparr>\<rparr>)"
| step_shutdown: "lst s = LDone \<Longrightarrow> \<not> shuttingDown (px s) \<Longrightarrow> adm s = Free \<Longrightarrow>
    sys_step s Main_thread (s\<lparr>px := shutdown_locked (px s), adm := HCloseAll\<rparr>)"
| step_session: "session_own ev \<Longrightarrow> session_enabled ev (sess_heap (px s) v) \<Longrightarrow> v < next_sid (px s) \<Longrightarrow>
    (\<forall>b. ev = ContextWatch b \<longrightarrow> b = (ctx_err (px s) \<noteq> None)) \<Longrightarrow>
    sys_step s (Session_thread v) (s\<lparr>px := (px s)\<lparr>sess_heap := (sess_heap (px s))
        (v := session_do ev (sess_heap (px s) v))\<rparr>\<rparr>)"
| step_ctx: "ctx_err (px s) = None \<Longrightarrow> sys_step s Environment (s\<lparr>px := (px s)\<lparr>ctx_err := Some e\<rparr>\<rparr>)"

text \<open>\<open>Serve\<close> has asked for the state once and spawned its goroutines.\<close>

definition sys_init :: "sys \<Rightarrow> bool" where
  "sys_init s \<longleftrightarrow> (\<exists>o' p ctxe now st. New o' = Inr p \<and> px s = Serve_begin ctxe now st p)
     \<and> lst s = LIdle \<and> adm s = Free \<and> suph s = (\<lambda>_. SuPoll False) \<and> fired s = [] \<and> wq s = []
     \<and> wsched s = 0 \<and> fin s = 0 \<and> swp s = SwIdle \<and> mon s = MIdle hf_zero \<and> recv s = []"

section \<open>The data invariants hold at every moment\<close>

text \<open>Callbacks that have fired and not finished.\<close>

definition callbacks :: "sys \<Rightarrow> int" where
  "callbacks s = int (length (fired s)) + (case adm s of HStop t \<Rightarrow> 1 | HStopped t \<Rightarrow> 1 | _ \<Rightarrow> 0)"

fun phase_sid :: "lphase \<Rightarrow> sid option" where
  "phase_sid (LCall i r key d v) = Some v"
| "phase_sid (LQueued i r key d v) = Some v"
| "phase_sid (LSend i r key d v) = Some v"
| "phase_sid (LStale key d v) = Some v"
| "phase_sid (LStaleQ key d v) = Some v"
| "phase_sid (LCancel r key d v) = Some v"
| "phase_sid (LWatch r key d v) = Some v"
| "phase_sid l = None"

text \<open>The listener's phases in which it holds \<open>admissionMu\<close>.\<close>

fun phase_locked :: "lphase \<Rightarrow> bool" where
  "phase_locked (LCall i r key d v) = (i \<noteq> 0)"
| "phase_locked (LQueued i r key d v) = (i \<noteq> 0)"
| "phase_locked (LSend i r key d v) = (i \<noteq> 0)"
| "phase_locked LIdle = False"
| "phase_locked (LFirst key d) = False"
| "phase_locked (LLock key d) = False"
| "phase_locked LDone = False"
| "phase_locked l = True"

definition data_inv :: "sys \<Rightarrow> bool" where
  "data_inv s \<longleftrightarrow> proxy_inv (callbacks s) (px s) \<and> (\<forall>t \<in> set (fired s). timer_ok t)
     \<and> (\<forall>t. adm s = HStop t \<longrightarrow> timer_ok t) \<and> (\<forall>v. phase_sid (lst s) = Some v \<longrightarrow> v < next_sid (px s))"

definition lock_inv :: "sys \<Rightarrow> bool" where
  "lock_inv s \<longleftrightarrow> (adm s = HListener \<longleftrightarrow> phase_locked (lst s))
     \<and> (\<forall>t. adm s = HStop t \<or> adm s = HStopped t \<longrightarrow> Len (pstore (px s)) = 0)
     \<and> (rlocked (lst s) \<longrightarrow> \<not> wlocked (adm s))
     \<and> (\<forall>i r key d v. lst s = LSend i r key d v \<longrightarrow> backendReady (px s))"

lemma length_remove1_int: "x \<in> set xs \<Longrightarrow> int (length (remove1 x xs)) = int (length xs) - 1"
  by (induction xs) auto

lemma proxy_inv_fire:
  assumes "proxy_inv k p" "t \<in> set (armed p)"
  shows "proxy_inv (k + 1) (p\<lparr>armed := remove1 t (armed p)\<rparr>)"
proof -
  have "distinct (map timer_id (armed p))" using assms(1) by (simp add: proxy_inv_parts)
  then have "distinct (map timer_id (remove1 t (armed p)))"
    by (auto simp: distinct_map inj_on_diff)
  moreover have "int (length (remove1 t (armed p))) = int (length (armed p)) - 1"
    using assms(2) by (rule length_remove1_int)
  moreover have "set (remove1 t (armed p)) \<subseteq> set (armed p)" by (rule set_remove1_subset)
  ultimately show ?thesis using assms(1) by (auto simp: proxy_inv_parts)
qed

lemma proxy_inv_t_done: "proxy_inv k p \<Longrightarrow> proxy_inv (k - 1) (t_done p)"
  by (auto simp: proxy_inv_parts t_done_def)

lemma armed_ok: "proxy_inv k p \<Longrightarrow> t \<in> set (armed p) \<Longrightarrow> timer_ok t"
  by (simp add: proxy_inv_parts)

lemma proxy_inv_remove_session: "proxy_inv k p \<Longrightarrow> proxy_inv k (remove_session key v p)"
  by (auto simp: remove_session_def split: prod.split intro: proxy_inv_Remove)

lemma proxy_inv_ctx: "proxy_inv k p \<Longrightarrow> proxy_inv k (p\<lparr>ctx_err := e\<rparr>)"
  by (simp add: proxy_inv_parts)

lemma proxy_inv_end_startup: "proxy_inv k p \<Longrightarrow> proxy_inv k (end_startup g p)"
  by (simp add: end_startup_def proxy_inv_startups)

lemma proxy_inv_watchers: "proxy_inv k p \<Longrightarrow> set ws \<subseteq> set (watchers p) \<Longrightarrow> proxy_inv k (p\<lparr>watchers := ws\<rparr>)"
  by (auto simp: proxy_inv_parts)

lemma proxy_inv_lastWarning: "proxy_inv k p \<Longrightarrow> proxy_inv k (p\<lparr>lastCapacityWarning := now\<rparr>)"
  by (simp add: proxy_inv_parts)

lemma callbacks_simps [simp]:
  "callbacks (s\<lparr>px := p\<rparr>) = callbacks s" "callbacks (s\<lparr>lst := l\<rparr>) = callbacks s"
  "callbacks (s\<lparr>suph := f\<rparr>) = callbacks s" "callbacks (s\<lparr>wq := w\<rparr>) = callbacks s"
  "callbacks (s\<lparr>wsched := n\<rparr>) = callbacks s" "callbacks (s\<lparr>fin := n\<rparr>) = callbacks s"
  "callbacks (s\<lparr>swp := sw\<rparr>) = callbacks s" "callbacks (s\<lparr>mon := m\<rparr>) = callbacks s"
  "callbacks (s\<lparr>recv := rs\<rparr>) = callbacks s"
  by (simp_all add: callbacks_def)

text \<open>The listener holds or takes \<open>admissionMu\<close> only when no callback does.\<close>

lemma callbacks_free [simp]:
  "adm s = Free \<Longrightarrow> callbacks s = int (length (fired s))"
  "adm s = HListener \<Longrightarrow> callbacks s = int (length (fired s))"
  "adm s = HGate g \<Longrightarrow> callbacks s = int (length (fired s))"
  "adm s = HCloseAll \<Longrightarrow> callbacks s = int (length (fired s))"
  by (simp_all add: callbacks_def)

lemma callbacks_adm [simp]:
  "callbacks (s\<lparr>adm := Free\<rparr>) = int (length (fired s))" "callbacks (s\<lparr>adm := HListener\<rparr>) = int (length (fired s))"
  "callbacks (s\<lparr>adm := HGate g\<rparr>) = int (length (fired s))" "callbacks (s\<lparr>adm := HCloseAll\<rparr>) = int (length (fired s))"
  "callbacks (s\<lparr>adm := HStop t\<rparr>) = int (length (fired s)) + 1" "callbacks (s\<lparr>adm := HStopped t\<rparr>) = int (length (fired s)) + 1"
  by (simp_all add: callbacks_def)

lemma callbacks_stop [simp]:
  "adm s = HStop t \<Longrightarrow> callbacks s = int (length (fired s)) + 1"
  "adm s = HStopped t \<Longrightarrow> callbacks s = int (length (fired s)) + 1"
  by (simp_all add: callbacks_def)

lemmas sys_ops = l_read_def l_get_def l_call_def l_queued_def l_send_def l_look_def l_gate_def l_create_def
  l_end_def unlock_def after_call_def u_status_def u_open_def u_gate_def u_fail_def u_finish_def t_fire_def
  t_lock_def t_accepted_def t_clear_def t_failed_def w_remove_def w_queue_def s_expire_def s_queues_def
  m_eval_def m_close_def

lemma data_inv_px:
  "data_inv s \<Longrightarrow> proxy_inv (callbacks s) p \<Longrightarrow> next_sid p = next_sid (px s) \<Longrightarrow> data_inv (s\<lparr>px := p\<rparr>)"
  by (simp add: data_inv_def)

lemma data_inv_local [simp]:
  "data_inv (s\<lparr>suph := f\<rparr>) = data_inv s" "data_inv (s\<lparr>wq := w\<rparr>) = data_inv s"
  "data_inv (s\<lparr>wsched := n\<rparr>) = data_inv s" "data_inv (s\<lparr>fin := n\<rparr>) = data_inv s"
  "data_inv (s\<lparr>swp := sw\<rparr>) = data_inv s" "data_inv (s\<lparr>mon := m\<rparr>) = data_inv s"
  "data_inv (s\<lparr>recv := rs\<rparr>) = data_inv s"
  by (simp_all add: data_inv_def)

lemma data_inv_lst:
  "data_inv s \<Longrightarrow> (\<And>v. phase_sid l = Some v \<Longrightarrow> v < next_sid (px s)) \<Longrightarrow> data_inv (s\<lparr>lst := l\<rparr>)"
  by (simp add: data_inv_def)

lemma data_inv_adm:
  "data_inv s \<Longrightarrow> adm s \<in> {Free, HListener, HCloseAll} \<or> (\<exists>g. adm s = HGate g) \<Longrightarrow>
   h \<in> {Free, HListener, HCloseAll} \<or> (\<exists>g. h = HGate g) \<Longrightarrow> data_inv (s\<lparr>adm := h\<rparr>)"
  by (auto simp: data_inv_def)

lemma data_invD: "data_inv s \<Longrightarrow> proxy_inv (callbacks s) (px s)"
  by (simp add: data_inv_def)

lemma data_inv_after_call:
  assumes "data_inv s" "v < next_sid (px s)" "i = 1 \<Longrightarrow> adm s = HListener"
  shows "data_inv (after_call i ready key d v b s)"
  using assms by (auto simp: after_call_def intro!: data_inv_lst data_inv_adm)

lemma next_sid_simps [simp]:
  "next_sid (startServer now p) = next_sid p" "next_sid (remove_session key v p) = next_sid p"
  "next_sid (scheduleAutoStop p) = next_sid p" "next_sid (markBackendNotRunning p) = next_sid p"
  "next_sid (closeAllSessions p) = next_sid p" "next_sid (failStartup_locked now g perm p) = next_sid p"
  "next_sid (end_startup g p) = next_sid p" "next_sid (shutdown_locked p) = next_sid p"
  "next_sid (t_done p) = next_sid p" "next_sid (autoStopResult r g a p) = next_sid p"
  by (auto simp: remove_session_def closeAllSessions_def failStartup_locked_def end_startup_def
      shutdown_locked_def t_done_def autoStopResult_def scheduleAutoStopAttemptLocked_def Let_def
      split: prod.split option.split)

lemma next_sid_results:
  "openStartupGate_locked tm wr p = (b, p1) \<Longrightarrow> next_sid p1 = next_sid p"
  "closeBackendGate_locked g p = (b, p1) \<Longrightarrow> next_sid p1 = next_sid p"
  "completeStartup now g p = (b, p1) \<Longrightarrow> next_sid p1 = next_sid p"
  "watch_remove key v p = (c, p1) \<Longrightarrow> next_sid p1 = next_sid p \<and> watchers p1 = watchers p"
  by (auto simp: openStartupGate_locked_def closeBackendGate_locked_def completeStartup_def watch_remove_def
      Let_def split: if_splits prod.splits)

lemma proxy_inv_watch_remove: "proxy_inv k p \<Longrightarrow> watch_remove key v p = (c, p1) \<Longrightarrow> proxy_inv k p1"
  by (auto simp: watch_remove_def Let_def split: prod.splits intro: proxy_inv_Remove)

lemma proxy_inv_completeStartup': "proxy_inv k p \<Longrightarrow> completeStartup now g p = (b, p1) \<Longrightarrow> proxy_inv k p1"
  using proxy_inv_completeStartup [of k p now g] by simp

lemma data_inv_listener:
  assumes d: "data_inv s" and l: "lock_inv s" and "sys_step s Listener_thread t"
  shows "data_inv t"
  using assms(3)
proof cases
  case (step_get key d)
  then show ?thesis using d
    by (auto simp: l_get_def split: option.split intro!: data_inv_lst intro: Get_alloc [OF data_invD])
next
  case (step_call i ready key da v now)
  then have v: "v < next_sid (px s)" "i = 1 \<Longrightarrow> adm s = HListener" using d l by (auto simp: data_inv_def lock_inv_def)
  obtain e a where r: "RecordActivity now (sess_heap (px s) v) = (e, a)" by (metis prod.collapse)
  have a: "sess_inv a" by (rule sess_inv_RecordActivity [OF proxy_invD(9) [OF data_invD [OF d]] r])
  have "proxy_inv (callbacks s) (enqueueLocked v da ((px s)\<lparr>sess_heap := (sess_heap (px s))(v := a)\<rparr>))"
    if "\<not> backendReady (px s)"
    using that v a by (intro proxy_inv_enqueueLocked proxy_inv_heap data_invD [OF d]) auto
  then show ?thesis using d v step_call
    by (auto simp: l_call_def r split: option.split intro!: data_inv_after_call data_inv_lst data_inv_px)
next
  case (step_queued i ready key da v now)
  then have "v < next_sid (px s)" "i = 1 \<Longrightarrow> adm s = HListener" using d l by (auto simp: data_inv_def lock_inv_def)
  then show ?thesis using d step_queued
    by (auto simp: l_queued_def intro!: data_inv_after_call data_inv_px proxy_inv_startServer data_invD)
next
  case (step_send i ready key da v now wr)
  then have v: "v < next_sid (px s)" "i = 1 \<Longrightarrow> adm s = HListener" using d l by (auto simp: data_inv_def lock_inv_def)
  obtain e a where r: "ForwardClient now wr da (sess_heap (px s) v) = (e, a)" by (metis prod.collapse)
  have "sess_inv a" by (rule sess_inv_ForwardClient [OF proxy_invD(9) [OF data_invD [OF d]] r])
  then show ?thesis using d v step_send
    by (auto simp: l_send_def r intro!: data_inv_after_call data_inv_px proxy_inv_heap data_invD)
next
  case (step_lock key da)
  then show ?thesis using d by (auto intro!: data_inv_lst data_inv_adm)
next
  case (step_look key d)
  then show ?thesis using d
    by (auto simp: l_look_def split: option.split intro!: data_inv_lst intro: Get_alloc [OF data_invD])
next
  case (step_stale key da v)
  then have "v < next_sid (px s)" using d by (auto simp: data_inv_def)
  then show ?thesis using d step_stale
    by (auto intro!: data_inv_lst data_inv_px proxy_inv_remove_session data_invD)
next
  case (step_staleQ key d v)
  then show ?thesis using assms(1) by (auto intro!: data_inv_lst data_inv_px proxy_inv_removeQueue data_invD)
next
  case (step_gate key da now)
  then have "adm s = HListener" using l by (auto simp: lock_inv_def)
  then show ?thesis using d step_gate by (auto simp: l_gate_def unlock_def intro!: data_inv_lst data_inv_adm)
next
  case (step_create ready key da env)
  then have h: "adm s = HListener" using l by (auto simp: lock_inv_def)
  obtain r created n err st h where g: "GetOrCreate key (session_factory env key (px s)) (pstore (px s)) (sess_heap (px s))
      = ((r, created, n, err), st, h)" by (metis prod.collapse)
  note c = proxy_inv_create [OF data_invD [OF d] g]
  have nc: "\<not> created" if "err \<noteq> None"
    using g by (cases rule: GetOrCreate_cases) (use that in auto)
  show ?thesis using d h step_create c nc
    by (auto simp: l_create_def g unlock_def data_inv_def Let_def shouldLogCapacityWarning_def
        split: option.split intro!: proxy_inv_lastWarning)
next
  case (step_cancel ready key da v)
  then have "v < next_sid (px s)" using d by (auto simp: data_inv_def)
  then show ?thesis using d step_cancel
    by (auto intro!: data_inv_lst data_inv_px proxy_inv_cancelAutoStop data_invD)
next
  case (step_watch ready key da v)
  then have "v < next_sid (px s)" using d by (auto simp: data_inv_def)
  then show ?thesis using d step_watch
    by (auto intro!: data_inv_lst data_inv_px proxy_inv_watchSession data_invD)
next
  case (step_end ready now)
  then have "adm s = HListener" using l by (auto simp: lock_inv_def)
  then show ?thesis using d step_end
    by (auto simp: l_end_def unlock_def intro!: data_inv_lst data_inv_adm data_inv_px proxy_inv_startServer data_invD)
qed (use d in \<open>auto simp: l_read_def intro!: data_inv_lst\<close>)

lemma data_inv_startup:
  assumes d: "data_inv s" and l: "lock_inv s" and "sys_step s (Startup_thread g) t"
  shows "data_inv t"
  using assms(3)
proof cases
  case (step_status sent answer)
  then show ?thesis using d
    by (auto simp: u_status_def split: sum.split server_state.split
        intro!: data_inv_px proxy_inv_running proxy_inv_markBackendNotRunning data_invD)
next
  case (step_open tm wrs)
  then show ?thesis using d
    by (auto simp: u_open_def split: prod.split bool.split dest: next_sid_results
        intro!: data_inv_px data_inv_adm intro: proxy_inv_openStartupGate_locked [OF data_invD])
next
  case step_opened
  then show ?thesis using d
    by (auto simp: u_gate_def intro!: data_inv_px data_inv_adm proxy_inv_scheduleAutoStop data_invD)
next
  case (step_fail permanent now)
  then show ?thesis using d
    by (auto simp: u_fail_def intro!: data_inv_px data_inv_adm proxy_inv_end_startup proxy_inv_failStartup_locked data_invD)
next
  case (step_finish now)
  then show ?thesis using d
    by (auto simp: u_finish_def split: prod.split dest: next_sid_results
        intro!: data_inv_px proxy_inv_end_startup intro: proxy_inv_completeStartup' [OF data_invD])
qed (use d in auto)

lemma data_inv_timer:
  assumes d: "data_inv s" and "sys_step s (Timer_thread u) t"
  shows "data_inv t"
  using assms(2)
proof cases
  case step_fire
  have "proxy_inv (callbacks s + 1) ((px s)\<lparr>armed := remove1 u (armed (px s))\<rparr>)"
    using proxy_inv_fire [OF data_invD [OF d]] step_fire by simp
  moreover have "timer_ok u" using armed_ok [OF data_invD [OF d]] step_fire by simp
  ultimately show ?thesis using d step_fire
    by (auto simp: t_fire_def data_inv_def callbacks_def algebra_simps)
next
  case step_tlock
  then have len: "int (length (remove1 u (fired s))) = int (length (fired s)) - 1" "timer_ok u"
    using d by (auto simp: length_remove1_int data_inv_def)
  then show ?thesis using d step_tlock proxy_inv_t_done [OF data_invD [OF d]]
    by (auto simp: t_lock_def data_inv_def callbacks_def Let_def dest: notin_set_remove1)
next
  case step_accepted
  then show ?thesis using d
    by (auto simp: t_accepted_def data_inv_def intro: proxy_inv_markBackendNotRunning)
next
  case step_clear
  have "proxy_inv (callbacks s) (if timer_generation u = stopGeneration (px s) then (px s)\<lparr>stopTimer := None\<rparr> else px s)"
    using data_invD [OF d] by (simp add: proxy_inv_stopTimer)
  from proxy_inv_t_done [OF this] show ?thesis using d step_clear
    by (auto simp: t_clear_def data_inv_def split: if_splits)
next
  case (step_failed e)
  then have "timer_ok u" using d by (simp add: data_inv_def)
  then have "proxy_inv (callbacks s) (autoStopResult (Some e) (timer_generation u) (timer_attempt u) (px s))"
    using data_invD [OF d] by (intro proxy_inv_autoStopResult) (simp_all add: timer_ok_def)
  from proxy_inv_t_done [OF this] show ?thesis using d step_failed
    by (auto simp: t_failed_def data_inv_def)
qed

lemma data_inv_other:
  assumes d: "data_inv s" and "sys_step s th t"
    "th \<notin> {Listener_thread} \<union> range Startup_thread \<union> range Timer_thread"
  shows "data_inv t"
  using assms(2)
proof cases
  case (step_restart n now)
  then show ?thesis using d by (auto intro!: data_inv_px proxy_inv_startServer data_invD)
next
  case step_closeAll
  then show ?thesis using d by (auto intro!: data_inv_px data_inv_adm proxy_inv_closeAllSessions data_invD)
next
  case (step_removed key v)
  then show ?thesis using d
    by (auto simp: w_remove_def split: prod.split dest: next_sid_results proxy_inv_watch_remove [OF data_invD]
        intro!: data_inv_px proxy_inv_watchers dest: set_remove1_subset [THEN subsetD])
next
  case (step_wqueue v b)
  then show ?thesis using d by (auto simp: w_queue_def intro!: data_inv_px proxy_inv_removeQueue data_invD)
next
  case (step_wsched n v)
  then show ?thesis using d by (auto intro!: data_inv_px proxy_inv_scheduleAutoStop data_invD)
next
  case (step_refresh now v vs now')
  have "sess_inv (snd (RecordActivity now' (sess_heap (px s) v)))"
    using sess_inv_RecordActivity [OF proxy_invD(9) [OF data_invD [OF d]]] by (metis prod.collapse)
  then show ?thesis using d step_refresh by (auto intro!: data_inv_px proxy_inv_heap data_invD)
next
  case (step_expire now)
  then show ?thesis using d
    by (auto simp: s_expire_def Let_def split: prod.split intro!: data_inv_px intro: proxy_inv_ExpireIdle [OF data_invD])
next
  case (step_squeues expired remaining)
  then show ?thesis using d by (auto simp: s_queues_def intro!: data_inv_px proxy_inv_removeClosedQueues data_invD)
next
  case (step_ssched b)
  then show ?thesis using d by (auto intro!: data_inv_px proxy_inv_scheduleAutoStop data_invD)
next
  case (step_eval g f err)
  then show ?thesis using d by (auto simp: m_eval_def split: prod.split)
next
  case (step_close g f)
  then show ?thesis using d
    by (auto simp: m_close_def split: prod.split dest: next_sid_results
        intro!: data_inv_px data_inv_adm intro: proxy_inv_closeBackendGate_locked [OF data_invD])
next
  case step_leave
  then show ?thesis using d by (auto intro!: data_inv_px data_inv_lst proxy_inv_ctx data_invD)
next
  case step_shutdown
  then show ?thesis using d by (auto intro!: data_inv_px data_inv_adm proxy_inv_shutdown_locked data_invD)
next
  case (step_session ev v)
  have "sess_inv (session_do ev (sess_heap (px s) v))"
    using step_session by (intro sess_inv_do proxy_invD(9) [OF data_invD [OF d]])
  then show ?thesis using d step_session by (auto intro!: data_inv_px proxy_inv_heap data_invD)
next
  case (step_ctx e)
  then show ?thesis using d by (auto intro!: data_inv_px proxy_inv_ctx data_invD)
qed (use assms in auto)

lemma data_inv_step: "data_inv s \<Longrightarrow> lock_inv s \<Longrightarrow> sys_step s th t \<Longrightarrow> data_inv t"
  using data_inv_listener data_inv_startup data_inv_timer data_inv_other
  by (cases th) blast+

end
