(* ===== verification/ProxyRuns.thy ===== *)
theory ProxyRuns
  imports ProxySystem
begin

text \<open>
  Invariants of the proxy's runs over all interleavings of its goroutines: the locks, the
  startup in progress, what was delivered, the watchers and queues of the sessions, and what
  shutdown leaves. Each is preserved by every step; \<open>sys_inv\<close> is their conjunction, and the
  properties drawn from it are in ProxyRefine.
\<close>

section \<open>Locks\<close>

lemma Len_zero: "Len st = 0 \<longleftrightarrow> sessions st = []"
  by (simp add: Len_def gm_len_def)

lemma store_frames [simp]:
  "pstore (end_startup g p) = pstore p" "pstore (failStartup_locked now g perm p) = pstore p"
  "pstore (shutdown_locked p) = pstore p" "pstore (t_done p) = pstore p"
  "pstore (autoStopResult r g a p) = pstore p" "sess_heap (end_startup g p) = sess_heap p"
  "sess_heap (failStartup_locked now g perm p) = sess_heap p" "sess_heap (shutdown_locked p) = sess_heap p"
  "sess_heap (t_done p) = sess_heap p" "sess_heap (autoStopResult r g a p) = sess_heap p"
  "queues (end_startup g p) = queues p" "queues (failStartup_locked now g perm p) = []"
  "queues (shutdown_locked p) = queues p" "queues (t_done p) = queues p"
  "queues (autoStopResult r g a p) = queues p" "queues (closeAllSessions p) = queues p"
  "queues (remove_session key v p) = queues p"
  by (auto simp: end_startup_def failStartup_locked_def shutdown_locked_def t_done_def autoStopResult_def
      scheduleAutoStopAttemptLocked_def closeAllSessions_def remove_session_def Let_def
      split: prod.split option.split)

lemma ready_frames [simp]:
  "backendReady (end_startup g p) = backendReady p" "backendReady (failStartup_locked now g perm p) = backendReady p"
  "\<not> backendReady (shutdown_locked p)" "backendReady (t_done p) = backendReady p"
  "backendReady (autoStopResult (Some e) g a p) = backendReady p"
  "backendReady (closeAllSessions p) = backendReady p" "backendReady (remove_session key v p) = backendReady p"
  by (auto simp: end_startup_def failStartup_locked_def shutdown_locked_def t_done_def autoStopResult_def
      scheduleAutoStopAttemptLocked_def closeAllSessions_def remove_session_def Let_def
      split: prod.split option.split)

lemma result_frames:
  "openStartupGate_locked tm wr p = (b, p1) \<Longrightarrow> pstore p1 = pstore p \<and> (b \<longrightarrow> backendReady p1) \<and> (\<not> b \<longrightarrow> p1 = p)"
  "closeBackendGate_locked g p = (b, p1) \<Longrightarrow> pstore p1 = pstore p \<and> sess_heap p1 = sess_heap p
     \<and> (b \<longrightarrow> queues p1 = []) \<and> (\<not> b \<longrightarrow> p1 = p)"
  "completeStartup now g p = (b, p1) \<Longrightarrow> pstore p1 = pstore p \<and> sess_heap p1 = sess_heap p \<and> queues p1 = queues p
     \<and> backendReady p1 = backendReady p"
  by (auto simp: openStartupGate_locked_def closeBackendGate_locked_def completeStartup_def Let_def split: if_splits)

lemma sessions_shrink:
  "set (sessions (pstore (remove_session key v p))) \<subseteq> set (sessions (pstore p))"
  "watch_remove key v p = (c, p1) \<Longrightarrow> set (sessions (pstore p1)) \<subseteq> set (sessions (pstore p))"
  "sessions (pstore (closeAllSessions p)) = []"
  by (auto simp: remove_session_def watch_remove_def closeAllSessions_def CloseAll_def Remove_def Let_def
      split: prod.splits option.splits if_splits dest: set_delete_alist)

lemma ExpireIdle_shrink:
  "store_inv st \<Longrightarrow> ExpireIdle c st h = (r, st1, h1) \<Longrightarrow> set (sessions st1) \<subseteq> set (sessions st)"
  by (auto simp: ExpireIdle_spec)

lemma watch_remove_frames:
  "watch_remove key v p = (c, p1) \<Longrightarrow> queues p1 = queues p \<and> backendReady p1 = backendReady p
     \<and> startups p1 = startups p \<and> startupRunning p1 = startupRunning p
     \<and> startupGeneration p1 = startupGeneration p \<and> shuttingDown p1 = shuttingDown p"
  by (auto simp: watch_remove_def Let_def split: prod.splits)

lemma wlocked_simps [simp]:
  "\<not> wlocked Free" "\<not> wlocked HListener" "\<not> wlocked (HStop t)" "\<not> wlocked (HStopped t)"
  "wlocked (HGate g)" "wlocked HCloseAll"
  by (simp_all add: wlocked_def)

lemma rlocked_simps [simp]:
  "\<not> rlocked LIdle" "\<not> rlocked (LFirst key d)" "\<not> rlocked (LCall i r key d v)" "rlocked (LQueued i r key d v)"
  "rlocked (LSend i r key d v)" "\<not> rlocked (LLock key d)" "\<not> rlocked (LLook key d)" "\<not> rlocked (LStale key d v)"
  "\<not> rlocked (LStaleQ key d v)" "\<not> rlocked (LGate key d)" "\<not> rlocked (LCreate r key d)"
  "\<not> rlocked (LCancel r key d v)" "\<not> rlocked (LWatch r key d v)" "\<not> rlocked (LStart r)" "\<not> rlocked LDone"
  by (simp_all add: rlocked_def)

lemma lock_inv_intro:
  assumes "lock_inv s" "adm t = adm s" "lst t = lst s"
    "set (sessions (pstore (px t))) \<subseteq> set (sessions (pstore (px s)))"
    "rlocked (lst s) \<Longrightarrow> backendReady (px t) = backendReady (px s)"
  shows "lock_inv t"
  using assms by (auto simp: lock_inv_def Len_zero rlocked_def)

lemma lock_inv_after_call:
  assumes "lock_inv s" "phase_locked (lst s) = (i \<noteq> 0)"
  shows "lock_inv (after_call i ready key d v b s)"
  using assms by (simp add: after_call_def lock_inv_def)

lemma lock_inv_px:
  assumes "lock_inv s" "pstore p = pstore (px s)" "backendReady p = backendReady (px s)"
  shows "lock_inv (s\<lparr>px := p\<rparr>)"
  using assms by (simp add: lock_inv_def)

lemma lock_inv_unlock [simp]: "lock_inv (unlock s)"
  by (simp add: unlock_def lock_inv_def)

lemma lock_inv_held: "adm s = HListener \<Longrightarrow> phase_locked (lst s) \<Longrightarrow> \<not> rlocked (lst s) \<Longrightarrow> lock_inv s"
  by (auto simp: lock_inv_def)

lemma lock_inv_step:
  assumes "lock_inv s" "data_inv s" "sys_step s th t"
  shows "lock_inv t"
proof -
  have si: "store_inv (pstore (px s))" using data_invD [OF assms(2)] by (rule proxy_invD)
  from assms(3) show ?thesis
  proof cases
    case (step_call i ready key d v now)
    obtain e a where r: "RecordActivity now (sess_heap (px s) v) = (e, a)" by (metis prod.collapse)
    have "lock_inv (s\<lparr>lst := LSend i ready key d v\<rparr>)" if "backendReady (px s)"
      using assms(1) step_call that by (simp add: lock_inv_def)
    moreover have "lock_inv (s\<lparr>px := enqueueLocked v d ((px s)\<lparr>sess_heap := (sess_heap (px s))(v := a)\<rparr>),
        lst := LQueued i ready key d v\<rparr>)"
      using assms(1) step_call by (simp add: lock_inv_def)
    moreover have "lock_inv (after_call i ready key d v False s)"
      using assms(1) step_call by (intro lock_inv_after_call) simp_all
    ultimately show ?thesis using step_call(2) by (simp add: l_call_def r split: option.split)
  next
    case (step_send i ready key d v now wr)
    obtain e a where r: "ForwardClient now wr d (sess_heap (px s) v) = (e, a)" by (metis prod.collapse)
    show ?thesis unfolding step_send(2) l_send_def r prod.case
      by (rule lock_inv_after_call) (use step_send in \<open>simp_all add: lock_inv_px [OF assms(1)]\<close>)
  next
    case (step_create ready key d env)
    then have h: "adm s = HListener" using assms(1) by (simp add: lock_inv_def)
    obtain r created n err st h where g: "GetOrCreate key (session_factory env key (px s)) (pstore (px s))
        (sess_heap (px s)) = ((r, created, n, err), st, h)" by (metis prod.collapse)
    show ?thesis unfolding step_create(2) l_create_def g using h
      by (cases err; cases r; cases created) (simp_all add: Let_def lock_inv_held)
  next
    case (step_status g sent answer)
    then show ?thesis using assms(1)
      by (intro lock_inv_intro [OF assms(1)]) (auto simp: u_status_def split: sum.splits server_state.splits)
  next
    case (step_open g tm wrs)
    then show ?thesis using assms(1)
      by (auto simp: u_open_def lock_inv_def split: prod.split bool.split dest: result_frames)
  next
    case (step_opened g)
    then show ?thesis using assms(1) by (auto simp: u_gate_def lock_inv_def)
  next
    case (step_finish g now)
    then show ?thesis
      by (intro lock_inv_intro [OF assms(1)]) (auto simp: u_finish_def split: prod.splits dest: result_frames)
  next
    case step_closeAll
    then show ?thesis using assms(1) by (auto simp: lock_inv_def)
  next
    case (step_tlock u)
    then show ?thesis using assms(1)
      by (auto simp: t_lock_def lock_inv_def Let_def autoStopAllowed_def)
  next
    case (step_accepted u)
    then show ?thesis using assms(1) by (auto simp: t_accepted_def lock_inv_def)
  next
    case (step_clear u)
    then show ?thesis using assms(1) by (auto simp: t_clear_def lock_inv_def t_done_def)
  next
    case (step_failed u e)
    then show ?thesis using assms(1) by (auto simp: t_failed_def lock_inv_def)
  next
    case (step_removed key v)
    then show ?thesis
      by (intro lock_inv_intro [OF assms(1)])
        (auto simp: w_remove_def split: prod.splits dest: sessions_shrink(2) [THEN subsetD] watch_remove_frames)
  next
    case (step_expire now)
    then show ?thesis
      by (intro lock_inv_intro [OF assms(1)])
        (auto simp: s_expire_def Let_def split: prod.splits dest: ExpireIdle_shrink [OF si, THEN subsetD])
  next
    case (step_close g f)
    then show ?thesis using assms(1)
      by (auto simp: m_close_def lock_inv_def split: prod.split dest: result_frames)
  next
    case step_shutdown
    then show ?thesis using assms(1) by (auto simp: lock_inv_def)
  next
    case (step_fail g permanent now)
    then show ?thesis using assms(1) by (auto simp: u_fail_def lock_inv_def)
  next
    case (step_stale key d v)
    then show ?thesis using assms(1) by (auto simp: lock_inv_def)
  next
    case (step_gate key d now)
    moreover from this have "adm s = HListener" using assms(1) by (simp add: lock_inv_def)
    ultimately show ?thesis by (simp add: l_gate_def lock_inv_held)
  next
    case (step_end ready now)
    then show ?thesis by (simp add: l_end_def)
  next
    case (step_queued i ready key d v now)
    show ?thesis unfolding step_queued(2) l_queued_def
      by (rule lock_inv_after_call) (use step_queued in \<open>simp_all add: lock_inv_px [OF assms(1)]\<close>)
  qed (use assms(1) in \<open>auto simp: lock_inv_def l_read_def l_get_def l_look_def
      t_fire_def w_queue_def s_queues_def m_eval_def split: option.splits prod.splits\<close>)
qed

section \<open>One startup at a time\<close>

definition start_inv :: "proxy \<Rightarrow> bool" where
  "start_inv p \<longleftrightarrow> length (startups p) \<le> 1 \<and> (shuttingDown p \<longrightarrow> \<not> startupRunning p)
     \<and> (\<not> shuttingDown p \<longrightarrow> startups p = (if startupRunning p then [startupGeneration p] else []))"

definition start_fields :: "proxy \<Rightarrow> uint64 list \<times> bool \<times> uint64 \<times> bool" where
  "start_fields p = (startups p, startupRunning p, startupGeneration p, shuttingDown p)"

lemma start_inv_same: "start_fields p = start_fields q \<Longrightarrow> start_inv q \<Longrightarrow> start_inv p"
  by (simp add: start_fields_def start_inv_def)

lemma start_fields_ops [simp]:
  "start_fields (enqueueLocked v d p) = start_fields p" "start_fields (removeQueue v p) = start_fields p"
  "start_fields (remove_session key v p) = start_fields p" "start_fields (cancelAutoStop p) = start_fields p"
  "start_fields (watchSession key v p) = start_fields p" "start_fields (markBackendNotRunning p) = start_fields p"
  "start_fields (scheduleAutoStop p) = start_fields p" "start_fields (closeAllSessions p) = start_fields p"
  "start_fields (t_done p) = start_fields p" "start_fields (removeClosedQueues p) = start_fields p"
  "start_fields (autoStopResult r g a p) = start_fields p" "start_fields (snd (shouldLogCapacityWarning now p)) = start_fields p"
  "start_fields (p\<lparr>sess_heap := h\<rparr>) = start_fields p" "start_fields (p\<lparr>pstore := st\<rparr>) = start_fields p"
  "start_fields (p\<lparr>next_sid := n\<rparr>) = start_fields p" "start_fields (p\<lparr>backendRunning := b\<rparr>) = start_fields p"
  "start_fields (p\<lparr>armed := ts\<rparr>) = start_fields p" "start_fields (p\<lparr>stopTimer := tm\<rparr>) = start_fields p"
  "start_fields (p\<lparr>watchers := ws\<rparr>) = start_fields p" "start_fields (p\<lparr>ctx_err := e\<rparr>) = start_fields p"
  by (auto simp: start_fields_def remove_session_def cancelAutoStop_def watchSession_def closeAllSessions_def
      t_done_def autoStopResult_def scheduleAutoStopAttemptLocked_def shouldLogCapacityWarning_def Let_def
      split: prod.split option.split)

lemma start_fields_results:
  "openStartupGate_locked tm wr p = (b, p1) \<Longrightarrow> start_fields p1 = start_fields p"
  "closeBackendGate_locked g p = (b, p1) \<Longrightarrow> start_fields p1 = start_fields p"
  "watch_remove key v p = (c, p1) \<Longrightarrow> start_fields p1 = start_fields p"
  by (auto simp: start_fields_def openStartupGate_locked_def closeBackendGate_locked_def watch_remove_def Let_def
      split: if_splits prod.splits)

lemma start_inv_startServer: "start_inv p \<Longrightarrow> start_inv (startServer now p)"
  by (auto simp: start_inv_def startServer_def Let_def)

lemma start_inv_finish:
  "start_inv p \<Longrightarrow> g \<in> set (startups p) \<Longrightarrow> completeStartup now g p = (b, p1) \<Longrightarrow> start_inv (end_startup g p1)"
  by (cases "startups p") (auto simp: start_inv_def completeStartup_def end_startup_def Let_def split: if_splits)

lemma start_inv_fail:
  "start_inv p \<Longrightarrow> g \<in> set (startups p) \<Longrightarrow> start_inv (end_startup g (failStartup_locked now g perm p))"
  by (cases "startups p") (auto simp: start_inv_def failStartup_locked_def end_startup_def Let_def split: if_splits)

lemma start_inv_shutdown: "start_inv p \<Longrightarrow> start_inv (shutdown_locked p)"
  by (auto simp: start_inv_def shutdown_locked_def Let_def)

lemma px_after_call [simp]: "px (after_call i ready key d v b s) = px s"
  by (simp add: after_call_def)

lemma px_unlock [simp]: "px (unlock s) = px s"
  by (simp add: unlock_def)

lemma start_fields_create: "start_fields (px (l_create env ready key d s)) = start_fields (px s)"
  unfolding l_create_def by (auto split: prod.split option.split simp: Let_def)

lemma start_inv_step:
  assumes "start_inv (px s)" "sys_step s th t"
  shows "start_inv (px t)"
  using assms(2)
proof cases
  case (step_create ready key d env)
  then show ?thesis using start_inv_same [OF start_fields_create assms(1)] by simp
next
  case (step_status g sent answer)
  have "start_fields (px t) = start_fields (px s)" unfolding step_status u_status_def
    by (simp split: sum.split server_state.split)
  then show ?thesis using assms(1) by (rule start_inv_same)
next
  case (step_fail g permanent now)
  then show ?thesis using assms(1) by (simp add: u_fail_def start_inv_fail)
next
  case (step_finish g now)
  then show ?thesis using assms(1) by (auto simp: u_finish_def start_inv_finish split: prod.split)
next
  case (step_removed key v)
  have "start_fields (px t) = start_fields (px s)" unfolding step_removed w_remove_def
    by (auto split: prod.split dest: start_fields_results)
  then show ?thesis using assms(1) by (rule start_inv_same)
qed (use assms(1) in \<open>auto simp: start_inv_startServer start_inv_shutdown l_read_def l_get_def l_call_def l_queued_def
      l_send_def l_look_def l_gate_def l_end_def u_open_def u_gate_def t_fire_def t_lock_def t_accepted_def
      t_clear_def t_failed_def w_remove_def w_queue_def s_expire_def s_queues_def m_eval_def m_close_def Let_def
      split: option.splits prod.splits if_splits bool.splits
      dest: start_fields_results intro: start_inv_same [rotated]\<close>)

section \<open>Steps that deliver nothing\<close>

text \<open>
  Most operations neither write to an upstream socket nor add to a queue: they keep what a
  session has sent and whose it is, never reopen a session, and take a session out of the
  store only closed.
\<close>

definition keeps :: "session \<Rightarrow> session \<Rightarrow> bool" where
  "keeps s a \<longleftrightarrow> clientAddr a = clientAddr s \<and> upstream_sent a = upstream_sent s \<and> (closed s \<longrightarrow> closed a)"

definition quiet :: "proxy \<Rightarrow> proxy \<Rightarrow> bool" where
  "quiet p q \<longleftrightarrow> (\<forall>v. keeps (sess_heap p v) (sess_heap q v))
     \<and> (\<forall>v. map_of (queues q) v = None \<or> map_of (queues q) v = map_of (queues p) v)
     \<and> set (sessions (pstore q)) \<subseteq> set (sessions (pstore p)) \<and> next_sid q = next_sid p
     \<and> (\<forall>e \<in> set (sessions (pstore p)) - set (sessions (pstore q)). closed (sess_heap q (snd e)))"

lemma keeps_refl [simp]: "keeps s s"
  by (simp add: keeps_def)

lemma keeps_trans: "keeps s a \<Longrightarrow> keeps a b \<Longrightarrow> keeps s b"
  by (simp add: keeps_def)

lemma keeps_closing:
  "keeps s (snd (Close s))" "keeps s (snd (TryExpire c s))" "keeps s (snd (RecordActivity now s))"
  by (auto simp: keeps_def session_defs Let_def)

lemma ForwardClient_keeps:
  "ForwardClient now wr d s = (e, a) \<Longrightarrow> clientAddr a = clientAddr s \<and> (closed s \<longrightarrow> closed a)
     \<and> upstream_sent a = upstream_sent s @ (if e = None then [d] else [])"
  by (cases "closed s"; cases wr)
    (auto simp: session_defs closed_ForwardClient Let_def split: if_splits option.splits)

lemma keeps_own: "session_own ev \<Longrightarrow> keeps s (session_do ev s)"
  by (cases ev) (auto simp: keeps_def session_defs session_own_def Let_def split: option.split backend_read.split)

lemma keeps_failed: "ForwardClient now wr d s = (Some e, a) \<Longrightarrow> keeps s a"
  using ForwardClient_keeps [of now wr d s "Some e" a] by (simp add: keeps_def)

lemmas keeps_ops = keeps_closing keeps_own keeps_failed

lemma quiet_same:
  "sess_heap q = sess_heap p \<Longrightarrow> queues q = queues p \<Longrightarrow> pstore q = pstore p \<Longrightarrow> next_sid q = next_sid p \<Longrightarrow> quiet p q"
  by (simp add: quiet_def)

lemma quiet_upd: "keeps (sess_heap p v) a \<Longrightarrow> quiet p (p\<lparr>sess_heap := (sess_heap p)(v := a)\<rparr>)"
  by (simp add: quiet_def)

lemma quiet_queues:
  "sess_heap q = sess_heap p \<Longrightarrow> pstore q = pstore p \<Longrightarrow> next_sid q = next_sid p \<Longrightarrow>
   (\<And>v. map_of (queues q) v = None \<or> map_of (queues q) v = map_of (queues p) v) \<Longrightarrow> quiet p q"
  by (simp add: quiet_def)

lemma quiet_trans: "quiet p q \<Longrightarrow> quiet q r \<Longrightarrow> quiet p r"
  unfolding quiet_def by (metis (no_types, opaque_lifting) DiffD1 DiffD2 DiffI keeps_def keeps_trans subset_trans)

lemma quiet_Remove:
  assumes "store_ok (pstore p) (sess_heap p)" "Remove key v (pstore p) (sess_heap p) = (r, st, h)"
  shows "quiet p (p\<lparr>pstore := st, sess_heap := h\<rparr>)"
proof -
  have wf: "store_inv (pstore p)" "gm_wf (sessions (pstore p))" "heap_inv (sess_heap p)"
    using assms(1) by (auto simp: store_ok_def store_inv_def)
  have "e = (key, v)" if "e \<in> set (sessions (pstore p))" "e \<notin> set (AList.delete key (sessions (pstore p)))"
    "map_of (sessions (pstore p)) key = Some v" for e
    using that same_key [OF wf(2), of key "snd e" v] by (auto simp: delete_filter dest!: map_of_SomeD)
  then show ?thesis
    using assms(2) wf(3) unfolding Remove_spec [OF wf(1)]
    by (auto simp: quiet_def keeps_ops Close_all heap_invD split: if_splits dest: set_delete_alist)
qed

lemma quiet_ExpireIdle:
  assumes "store_ok (pstore p) (sess_heap p)" "ExpireIdle c (pstore p) (sess_heap p) = (r, st, h)"
  shows "quiet p (p\<lparr>pstore := st, sess_heap := h\<rparr>)"
proof -
  have wf: "store_inv (pstore p)" "heap_inv (sess_heap p)" using assms(1) by (auto simp: store_ok_def)
  have k: "keeps (sess_heap p v) (snd (Close (snd (TryExpire c (sess_heap p v)))))" for v
    by (rule keeps_trans [OF keeps_ops(2) keeps_ops(1)])
  have "closed (snd (Close (snd (TryExpire c (sess_heap p v)))))" for v
    using wf(2) by (intro Close_all sess_inv_TryExpire heap_invD)
  then show ?thesis
    using assms(2) k unfolding ExpireIdle_spec [OF wf(1)] by (force simp: quiet_def)
qed

lemma quiet_closeAllSessions:
  assumes "store_ok (pstore p) (sess_heap p)"
  shows "quiet p (closeAllSessions p)"
  using assms by (auto simp: closeAllSessions_def quiet_def store_ok_def CloseAll_spec keeps_ops Close_all heap_invD)

lemma quiet_removeClosedQueues:
  assumes "queue_inv p"
  shows "quiet p (removeClosedQueues p)"
proof -
  have "map_of (filter (\<lambda>e. \<not> done_closed (sess_heap p (fst e))) (queues p)) v
      = (if done_closed (sess_heap p v) then None else map_of (queues p) v)" for v
    using map_of_filter_key [of "queues p" "\<lambda>k _. \<not> done_closed (sess_heap p k)" v] assms
    by (auto simp: queue_inv_def case_prod_beta' split: option.splits)
  then show ?thesis
    by (intro quiet_queues) (auto simp: removeClosedQueues_spec [OF assms])
qed

lemma quiet_ops:
  "quiet p (startServer now p)" "quiet p (removeQueue v p)" "quiet p (end_startup g p)"
  "quiet p (failStartup_locked now g perm p)" "quiet p (shutdown_locked p)" "quiet p (markBackendNotRunning p)"
  "quiet p (scheduleAutoStop p)" "quiet p (cancelAutoStop p)" "quiet p (watchSession key v p)" "quiet p (t_done p)"
  "quiet p (autoStopResult r g a p)" "quiet p (snd (shouldLogCapacityWarning now p))"
  "completeStartup now g p = (b, p1) \<Longrightarrow> quiet p p1" "closeBackendGate_locked g p = (b, p1) \<Longrightarrow> quiet p p1"
  by (auto intro!: quiet_queues simp: queues_removeQueue delete_conv' shouldLogCapacityWarning_def
      dest: result_frames next_sid_results)

lemma quiet_refl [simp]: "quiet p p"
  by (simp add: quiet_same)

lemma quiet_watch_remove:
  "store_ok (pstore p) (sess_heap p) \<Longrightarrow> watch_remove key v p = (c, p1) \<Longrightarrow> quiet p (p1\<lparr>watchers := ws\<rparr>)"
  by (auto simp: watch_remove_def Let_def split: prod.splits
      intro!: quiet_trans [OF quiet_Remove quiet_same])

lemma quiet_remove_session:
  "store_ok (pstore p) (sess_heap p) \<Longrightarrow> quiet p (remove_session key v p)"
  by (auto simp: remove_session_def split: prod.split intro: quiet_Remove)

text \<open>A goroutine other than the listener either is quiet or flushes the queues.\<close>

lemma other_quiet:
  assumes "sys_step s th t" "th \<noteq> Listener_thread" "data_inv s"
  shows "recv t = recv s \<and> (lst t = lst s \<or> lst s = LIdle \<and> lst t = LDone \<and> quiet (px s) (px t))
     \<and> (quiet (px s) (px t) \<or> (\<exists>tm wr. openStartupGate_locked tm wr (px s) = (True, px t)))"
proof -
  have inv: "store_ok (pstore (px s)) (sess_heap (px s))" "queue_inv (px s)"
    using proxy_invD [OF data_invD [OF assms(3)]] by auto
  note q = quiet_ops quiet_closeAllSessions [OF inv(1)] quiet_removeClosedQueues [OF inv(2)]
  from assms(1) show ?thesis
  proof cases
    case (step_status g sent answer)
    then show ?thesis by (auto simp: u_status_def q quiet_same split: sum.split server_state.split)
  next
    case (step_open g tm wrs)
    then show ?thesis by (auto simp: u_open_def split: prod.split bool.split dest: result_frames(1))
  next
    case (step_fail g permanent now)
    then show ?thesis by (auto simp: u_fail_def intro: quiet_trans [OF q(4) q(3)])
  next
    case (step_finish g now)
    then show ?thesis by (auto simp: u_finish_def split: prod.split intro: quiet_trans [OF q(13) q(3)])
  next
    case (step_clear u)
    then show ?thesis by (auto simp: t_clear_def q intro: quiet_trans [OF quiet_same q(10)])
  next
    case (step_failed u e)
    then show ?thesis by (auto simp: t_failed_def intro: quiet_trans [OF q(11) q(10)])
  next
    case (step_removed key v)
    then show ?thesis by (auto simp: w_remove_def split: prod.split intro: quiet_watch_remove [OF inv(1)])
  next
    case (step_expire now)
    then show ?thesis by (auto simp: s_expire_def Let_def split: prod.split intro: quiet_ExpireIdle [OF inv(1)])
  next
    case (step_close g f)
    then show ?thesis by (auto simp: m_close_def split: prod.split intro: q(14))
  next
    case (step_session ev v)
    then show ?thesis by (auto intro!: quiet_upd keeps_own)
  next
    case (step_refresh now v vs now')
    then show ?thesis by (auto intro!: quiet_upd keeps_ops)
  qed (use assms(2) in \<open>auto simp: q quiet_same u_gate_def t_fire_def t_lock_def t_accepted_def w_queue_def
      s_queues_def m_eval_def Let_def split: prod.splits if_splits\<close>)
qed

section \<open>Order of delivery\<close>

text \<open>What a session has sent and what waits for it, in order.\<close>

definition handed :: "proxy \<Rightarrow> sid \<Rightarrow> bytes list" where
  "handed p v = upstream_sent (sess_heap p v)
     @ (case map_of (queues p) v of None \<Rightarrow> [] | Some q \<Rightarrow> packets q)"

definition from_client :: "udp_addr \<Rightarrow> (udp_addr \<times> bytes) list \<Rightarrow> bytes list" where
  "from_client key log = map snd (filter (\<lambda>e. fst e = key) log)"

text \<open>The datagram the listener is handling and has not yet handed to a session.\<close>

fun phase_packet :: "lphase \<Rightarrow> (udp_addr \<times> bytes) option" where
  "phase_packet (LFirst key d) = Some (key, d)"
| "phase_packet (LCall i r key d v) = Some (key, d)"
| "phase_packet (LSend i r key d v) = Some (key, d)"
| "phase_packet (LLock key d) = Some (key, d)"
| "phase_packet (LLook key d) = Some (key, d)"
| "phase_packet (LStale key d v) = Some (key, d)"
| "phase_packet (LStaleQ key d v) = Some (key, d)"
| "phase_packet (LGate key d) = Some (key, d)"
| "phase_packet (LCreate r key d) = Some (key, d)"
| "phase_packet (LCancel r key d v) = Some (key, d)"
| "phase_packet (LWatch r key d v) = Some (key, d)"
| "phase_packet l = None"

fun phase_target :: "lphase \<Rightarrow> (udp_addr \<times> sid) option" where
  "phase_target (LCall i r key d v) = Some (key, v)"
| "phase_target (LSend i r key d v) = Some (key, v)"
| "phase_target (LCancel r key d v) = Some (key, v)"
| "phase_target (LWatch r key d v) = Some (key, v)"
| "phase_target l = None"

definition handled :: "sys \<Rightarrow> (udp_addr \<times> bytes) list" where
  "handled s = (if phase_packet (lst s) = None then recv s else butlast (recv s))"

definition delivery_inv :: "sys \<Rightarrow> bool" where
  "delivery_inv s \<longleftrightarrow>
     (\<forall>v. subseq (handed (px s) v) (from_client (clientAddr (sess_heap (px s) v)) (handled s)))
   \<and> (\<forall>e. phase_packet (lst s) = Some e \<longrightarrow> (\<exists>log. recv s = log @ [e]))
   \<and> (\<forall>key v. phase_target (lst s) = Some (key, v) \<longrightarrow> clientAddr (sess_heap (px s) v) = key)
   \<and> (\<forall>e \<in> set (sessions (pstore (px s))). clientAddr (sess_heap (px s) (snd e)) = fst e)"

lemma from_client_append [simp]:
  "from_client key (xs @ ys) = from_client key xs @ from_client key ys"
  "from_client key [] = []" "from_client key [(k, d)] = (if k = key then [d] else [])"
  by (simp_all add: from_client_def)

lemma quiet_handed: "quiet p q \<Longrightarrow> subseq (handed q v) (handed p v)"
  by (auto simp: quiet_def keeps_def handed_def list_emb_append_mono split: option.split
      dest!: spec [of _ v])

lemma ok_prefix_subseq: "subseq (ok_prefix wr i ds) ds"
  by (induction ds arbitrary: i) auto

lemma flush_packets_keeps:
  "clientAddr (flush_packets tm wr i ds s) = clientAddr s" "closed s \<Longrightarrow> closed (flush_packets tm wr i ds s)"
proof (induction tm wr i ds s rule: flush_packets.induct)
  case (2 tm wr i d ds s)
  case 1
  from 2(1) show ?case by (auto split: prod.split option.split dest: ForwardClient_keeps)
next
  case (2 tm wr i d ds s)
  case 2
  from 2 show ?case by (simp add: closed_ForwardClient)
qed simp_all

lemma flush_handed:
  assumes "proxy_inv k p" "openStartupGate_locked tm wr p = (True, q)"
  shows "subseq (handed q v) (handed p v)" "clientAddr (sess_heap q v) = clientAddr (sess_heap p v)"
    "pstore q = pstore p" "next_sid q = next_sid p" "closed (sess_heap p v) \<Longrightarrow> closed (sess_heap q v)"
    "queues q = []"
proof -
  have wf: "gm_wf (queues p)" using proxy_invD(3) [OF assms(1)] by (simp add: queue_inv_def)
  have q: "sess_heap q = flush_queues tm wr (queues p) (sess_heap p)" "queues q = []" "pstore q = pstore p"
      "next_sid q = next_sid p"
    using assms(2) by (auto simp: openStartupGate_locked_def Let_def split: if_splits)
  show "clientAddr (sess_heap q v) = clientAddr (sess_heap p v)" "closed (sess_heap p v) \<Longrightarrow> closed (sess_heap q v)"
    by (simp_all add: q(1) flush_queues_at [OF wf] flush_packets_keeps split: option.split)
  have "subseq (upstream_sent (flush_packets (tm v) (wr v) 0 ds (sess_heap p v))) (upstream_sent (sess_heap p v) @ ds)" for ds
    using flush_packets_sent [OF proxy_invD(9) [OF assms(1)], of v "tm v" "wr v" 0 ds] ok_prefix_subseq
    by (cases "closed (sess_heap p v)") (auto simp: flush_packets_closed list_emb_append_mono)
  then show "subseq (handed q v) (handed p v)"
    by (auto simp: handed_def q flush_queues_at [OF wf] split: option.split)
  show "pstore q = pstore p" "next_sid q = next_sid p" "queues q = []" using q by auto
qed

lemma delivery_inv_quiet:
  assumes "delivery_inv s" "px t = q" "quiet (px s) q" "recv t = recv s"
    "phase_packet (lst t) = phase_packet (lst s) \<or> phase_packet (lst t) = None"
    "phase_target (lst t) = None \<or> phase_target (lst t) = phase_target (lst s)"
  shows "delivery_inv t"
proof -
  have h: "subseq (handed q v) (handed (px s) v)" "clientAddr (sess_heap q v) = clientAddr (sess_heap (px s) v)" for v
    using quiet_handed [OF assms(3)] assms(3) by (auto simp: quiet_def keeps_def)
  have st: "set (sessions (pstore q)) \<subseteq> set (sessions (pstore (px s)))" using assms(3) by (simp add: quiet_def)
  have log: "subseq (from_client key (handled s)) (from_client key (handled t))" for key
  proof (cases "phase_packet (lst s)")
    case (Some e)
    then obtain log where "recv s = log @ [e]" using assms(1) by (auto simp: delivery_inv_def)
    then show ?thesis using assms(4,5) Some by (auto simp: handled_def)
  qed (use assms(4,5) in \<open>auto simp: handled_def\<close>)
  have "subseq (handed q v) (from_client (clientAddr (sess_heap q v)) (handled t))" for v
    using assms(1) h [of v] log subseq_order.order_trans unfolding delivery_inv_def by (metis (no_types))
  then show ?thesis using assms(1,4-6) h(2) st unfolding delivery_inv_def assms(2) by auto
qed

lemma delivery_inv_flush:
  assumes "delivery_inv s" "data_inv s" "openStartupGate_locked tm wr (px s) = (True, px t)" "recv t = recv s" "lst t = lst s"
  shows "delivery_inv t"
proof -
  note f = flush_handed [OF data_invD [OF assms(2)] assms(3)]
  have "subseq (handed (px t) v) (from_client (clientAddr (sess_heap (px t) v)) (handled t))" for v
    using assms(1,4,5) f(1,2) [of v] subseq_order.order_trans unfolding delivery_inv_def handled_def by (metis (no_types))
  then show ?thesis using assms(1,4,5) f unfolding delivery_inv_def by auto
qed

text \<open>The current datagram reaches its session: sent, or at the end of the queue.\<close>

lemma delivery_inv_deliver:
  assumes "delivery_inv s" "phase_packet (lst s) = Some (key, d)" "clientAddr (sess_heap (px s) v) = key"
    "recv t = recv s" "phase_packet (lst t) = None" "phase_target (lst t) = None"
    "\<And>w. w \<noteq> v \<Longrightarrow> handed (px t) w = handed (px s) w"
    "handed (px t) v = handed (px s) v \<or> handed (px t) v = handed (px s) v @ [d]"
    "\<And>w. clientAddr (sess_heap (px t) w) = clientAddr (sess_heap (px s) w)" "pstore (px t) = pstore (px s)"
  shows "delivery_inv t"
proof -
  obtain log where log: "recv s = log @ [(key, d)]" using assms(1,2) by (auto simp: delivery_inv_def)
  then have hs: "handled s = log" "handled t = log @ [(key, d)]" using assms(2,4,5) by (auto simp: handled_def)
  have IH: "subseq (handed (px s) w) (from_client (clientAddr (sess_heap (px s) w)) log)" for w
    using assms(1) hs by (simp add: delivery_inv_def)
  have "subseq (handed (px t) w) (from_client (clientAddr (sess_heap (px t) w)) (handled t))" for w
  proof (cases "w = v")
    case True
    then show ?thesis using assms(3,8,9) IH [of v] by (auto simp: hs list_emb_append_mono)
  next
    case False
    then show ?thesis using assms(7,9) IH [of w] by (auto simp: hs)
  qed
  then show ?thesis using assms(1,4-6,9,10) by (auto simp: delivery_inv_def)
qed

lemma phase_after_call:
  "phase_target (lst (after_call i ready key d v b s)) = None" "recv (after_call i ready key d v b s) = recv s"
  "phase_packet (lst (after_call i ready key d v b s)) = (if \<not> b \<and> i < 2 then Some (key, d) else None)"
  by (auto simp: after_call_def)

lemma handed_enqueue:
  assumes "a = (px s)\<lparr>sess_heap := (sess_heap (px s))(v := x)\<rparr>" "upstream_sent x = upstream_sent (sess_heap (px s) v)"
  shows "w \<noteq> v \<Longrightarrow> handed (enqueueLocked v d a) w = handed (px s) w"
    "handed (enqueueLocked v d a) v = handed (px s) v \<or> handed (enqueueLocked v d a) v = handed (px s) v @ [d]"
  using assms(2) unfolding assms(1)
  by (auto simp: handed_def enqueueLocked_def Let_def update_conv' emptyQueue_def split: option.split)

lemma Get_client: "delivery_inv s \<Longrightarrow> Get key (pstore (px s)) = Some v \<Longrightarrow> clientAddr (sess_heap (px s) v) = key"
  by (auto simp: delivery_inv_def Get_def dest!: map_of_SomeD)

lemma delivery_inv_call:
  assumes "delivery_inv s" "lst s = LCall i ready key d v"
  shows "delivery_inv (l_call now i ready key d v s)"
proof -
  obtain e a where r: "RecordActivity now (sess_heap (px s) v) = (e, a)" by (metis prod.collapse)
  have key: "clientAddr (sess_heap (px s) v) = key" using assms by (simp add: delivery_inv_def)
  have k: "keeps (sess_heap (px s) v) a" using keeps_ops(3) [of "sess_heap (px s) v" now] r by simp
  let ?a = "(px s)\<lparr>sess_heap := (sess_heap (px s))(v := a)\<rparr>"
  have "delivery_inv (s\<lparr>px := enqueueLocked v d ?a, lst := LQueued i ready key d v\<rparr>)"
  proof (rule delivery_inv_deliver [OF assms(1), of key d v])
    have sent: "upstream_sent a = upstream_sent (sess_heap (px s) v)" using k by (simp add: keeps_def)
    show "handed (px (s\<lparr>px := enqueueLocked v d ?a, lst := LQueued i ready key d v\<rparr>)) w = handed (px s) w" if "w \<noteq> v" for w
      using handed_enqueue(1) [OF refl sent that] by simp
    show "handed (px (s\<lparr>px := enqueueLocked v d ?a, lst := LQueued i ready key d v\<rparr>)) v = handed (px s) v
        \<or> handed (px (s\<lparr>px := enqueueLocked v d ?a, lst := LQueued i ready key d v\<rparr>)) v = handed (px s) v @ [d]"
      using handed_enqueue(2) [OF refl sent, of d] by simp
  qed (use k assms(2) key in \<open>simp_all add: keeps_def\<close>)
  moreover have "delivery_inv (after_call i ready key d v False s)"
    by (rule delivery_inv_quiet [OF assms(1) refl]) (auto simp: assms(2) phase_after_call)
  moreover have "delivery_inv (s\<lparr>lst := LSend i ready key d v\<rparr>)"
    by (rule delivery_inv_quiet [OF assms(1) refl]) (auto simp: assms(2))
  ultimately show ?thesis by (simp add: l_call_def r split: option.split)
qed

lemma delivery_inv_send:
  assumes "delivery_inv s" "lst s = LSend i ready key d v" "data_inv s" "lock_inv s"
  shows "delivery_inv (l_send now wr i ready key d v s)"
proof -
  obtain e a where r: "ForwardClient now wr d (sess_heap (px s) v) = (e, a)" by (metis prod.collapse)
  have key: "clientAddr (sess_heap (px s) v) = key" using assms by (simp add: delivery_inv_def)
  have "queues (px s) = []"
    using assms(2,4) proxy_invD(3) [OF data_invD [OF assms(3)]] by (auto simp: lock_inv_def queue_inv_def)
  note f = ForwardClient_keeps [OF r]
  let ?s = "s\<lparr>px := (px s)\<lparr>sess_heap := (sess_heap (px s))(v := a)\<rparr>\<rparr>"
  show ?thesis
  proof (cases e)
    case None
    then show ?thesis unfolding l_send_def r
      using f key \<open>queues (px s) = []\<close> assms(2)
      by (intro delivery_inv_deliver [OF assms(1), of key d v]) (auto simp: phase_after_call handed_def)
  next
    case (Some x)
    then have "quiet (px s) (px ?s)" using f by (auto intro!: quiet_upd simp: keeps_def)
    then show ?thesis unfolding l_send_def r prod.case
      by (intro delivery_inv_quiet [OF assms(1) refl]) (auto simp: assms(2) phase_after_call Some)
  qed
qed

lemma l_create_cases:
  assumes "data_inv s" "t = l_create env ready key d s"
  obtains (dropped) p where "t = unlock (s\<lparr>px := p\<rparr>)" "quiet (px s) p" "watchers p = watchers (px s)"
      "pstore p = pstore (px s)"
    | (found) v where "Get key (pstore (px s)) = Some v" "t = s\<lparr>px := px s, lst := LCall 2 ready key d v\<rparr>"
    | (created) a where "t = s\<lparr>px := (px s)\<lparr>pstore := (pstore (px s))\<lparr>sessions :=
          AList.update key (next_sid (px s)) (sessions (pstore (px s)))\<rparr>,
          sess_heap := (sess_heap (px s))(next_sid (px s) := a), next_sid := next_sid (px s) + 1\<rparr>,
          lst := LCancel ready key d (next_sid (px s))\<rparr>"
        "Get key (pstore (px s)) = None" "clientAddr a = key" "upstream_sent a = []" "\<not> closed a"
proof -
  obtain r cr n err st h where g: "GetOrCreate key (session_factory env key (px s)) (pstore (px s))
      (sess_heap (px s)) = ((r, cr, n, err), st, h)" by (metis prod.collapse)
  have heap: "snd (session_factory env key (px s) (sess_heap (px s))) = sess_heap (px s)"
    if "fst (session_factory env key (px s) (sess_heap (px s))) \<noteq> (Some (next_sid (px s)), None)"
    using that by (auto simp: session_factory_def split: sum.splits)
  have fac: "v = next_sid (px s) \<and> (\<exists>a. h' = (sess_heap (px s))(v := a) \<and> clientAddr a = key
      \<and> upstream_sent a = [] \<and> \<not> closed a)"
    if "session_factory env key (px s) (sess_heap (px s)) = ((Some v, None), h')" for v h'
    using that by (auto simp: session_factory_def NewSession_Inr split: sum.splits)
  from g show ?thesis
  proof (cases rule: GetOrCreate_cases)
    case (existing v)
    then show ?thesis using assms(2) g by (intro found [of v]) (simp_all add: l_create_def)
  next
    case full
    show ?thesis
      by (rule dropped [of "if errors_Is (Some ErrSessionCapacity) ErrSessionCapacity
            then snd (shouldLogCapacityWarning (pe_warn_now env) (px s)) else px s"])
        (use full assms(2) g in \<open>auto simp: l_create_def quiet_ops shouldLogCapacityWarning_def quiet_same Let_def\<close>)
  next
    case (failed e)
    have "fst (session_factory env key (px s) (sess_heap (px s))) \<noteq> (Some (next_sid (px s)), None)"
      using g failed(1,2,5) by (auto simp: GetOrCreate_def Get_def Len_def Let_def split: prod.splits option.splits)
    then have h: "h = sess_heap (px s)" using failed(8) heap by simp
    show ?thesis
      by (rule dropped [of "if errors_Is (Some e) ErrSessionCapacity
            then snd (shouldLogCapacityWarning (pe_warn_now env) (px s)) else px s"])
        (use failed h assms(2) g in \<open>auto simp: l_create_def shouldLogCapacityWarning_def quiet_same Let_def\<close>)
  next
    case (new v)
    from fac [OF new(3)] obtain a where "v = next_sid (px s)" "h = (sess_heap (px s))(v := a)" "clientAddr a = key"
      "upstream_sent a = []" "\<not> closed a" by blast
    then show ?thesis using new assms(2) g by (intro created [of a]) (simp_all add: l_create_def)
  qed
qed

lemma handed_fresh: "proxy_inv k p \<Longrightarrow> upstream_sent a = [] \<Longrightarrow> sess_heap q = (sess_heap p)(next_sid p := a) \<Longrightarrow>
    queues q = queues p \<Longrightarrow> handed q v = (if v = next_sid p then [] else handed p v)"
  by (auto simp: handed_def queue_fresh)

lemma delivery_inv_create:
  assumes "delivery_inv s" "data_inv s" "lst s = LCreate ready key d"
  shows "delivery_inv (l_create env ready key d s)"
proof -
  note inv = data_invD [OF assms(2)]
  have below: "snd e < next_sid (px s)" if "e \<in> set (sessions (pstore (px s)))" for e
    using that proxy_invD(4) [OF inv] by (auto simp: alloc_inv_def)
  show ?thesis using assms(2) refl
  proof (cases rule: l_create_cases [where env = env and ready = ready and key = key and d = d])
    case (dropped p)
    then show ?thesis
      by (intro delivery_inv_quiet [OF assms(1), of _ p]) (auto simp: unlock_def)
  next
    case (found v)
    then show ?thesis using assms(1,3) Get_client [OF assms(1) found(1)] by (auto simp: delivery_inv_def handled_def)
  next
    case (created a)
    let ?t = "l_create env ready key d s"
    have h: "handed (px ?t) v = (if v = next_sid (px s) then [] else handed (px s) v)" for v
      by (rule handed_fresh [OF inv created(4)]) (simp_all add: created(1))
    have "subseq (handed (px ?t) v) (from_client (clientAddr (sess_heap (px ?t) v)) (handled ?t))" for v
      unfolding h using assms(1,3) by (auto simp: created(1) delivery_inv_def handled_def)
    moreover have "clientAddr (sess_heap (px ?t) (snd e)) = fst e" if "e \<in> set (sessions (pstore (px ?t)))" for e
    proof -
      have "e = (key, next_sid (px s)) \<or> e \<in> set (sessions (pstore (px s)))"
        using that by (intro set_update_alist) (simp add: created(1))
      then show ?thesis using assms(1) below [of e] created(3) by (auto simp: created(1) delivery_inv_def)
    qed
    moreover have "\<exists>log. recv s = log @ [(key, d)]" using assms(1,3) by (simp add: delivery_inv_def)
    ultimately show ?thesis unfolding delivery_inv_def using created(3) by (simp add: created(1))
  qed
qed

lemma delivery_inv_listener:
  assumes "delivery_inv s" "data_inv s" "lock_inv s" "sys_step s Listener_thread t"
  shows "delivery_inv t"
proof -
  have ok: "store_ok (pstore (px s)) (sess_heap (px s))" by (rule proxy_invD(2) [OF data_invD [OF assms(2)]])
  note q = delivery_inv_quiet [OF assms(1) refl]
  from assms(4) show ?thesis
  proof cases
    case (step_read key d)
    have "subseq (from_client k (handled s)) (from_client k (handled t))" for k
      using step_read by (auto simp: handled_def l_read_def)
    then have "subseq (handed (px s) v) (from_client (clientAddr (sess_heap (px s) v)) (handled t))" for v
      using assms(1) subseq_order.order_trans unfolding delivery_inv_def by blast
    then show ?thesis using assms(1) step_read by (auto simp: delivery_inv_def l_read_def handled_def)
  next
    case (step_get key d)
    then show ?thesis using assms(1) Get_client [OF assms(1)]
      by (auto simp: l_get_def delivery_inv_def handled_def split: option.split)
  next
    case (step_call i ready key d v now)
    then show ?thesis using delivery_inv_call [OF assms(1)] by simp
  next
    case (step_queued i ready key d v now)
    then show ?thesis
      by (intro q) (auto simp: l_queued_def phase_after_call quiet_ops)
  next
    case (step_send i ready key d v now wr)
    then show ?thesis using delivery_inv_send [OF assms(1) _ assms(2,3)] by simp
  next
    case (step_look key d)
    then show ?thesis using assms(1) Get_client [OF assms(1)]
      by (auto simp: l_look_def delivery_inv_def handled_def split: option.split)
  next
    case (step_stale key d v)
    then show ?thesis by (intro q) (auto simp: quiet_remove_session [OF ok])
  next
    case (step_gate key d now)
    then show ?thesis by (intro q) (auto simp: l_gate_def unlock_def)
  next
    case (step_create ready key d env)
    then show ?thesis using delivery_inv_create [OF assms(1,2)] by simp
  next
    case (step_end ready now)
    then show ?thesis by (intro q) (auto simp: l_end_def unlock_def quiet_ops)
  qed ((rule q; auto simp: quiet_ops)+)
qed

lemma delivery_inv_step:
  assumes "delivery_inv s" "data_inv s" "lock_inv s" "sys_step s th t"
  shows "delivery_inv t"
proof (cases "th = Listener_thread")
  case True
  then show ?thesis using assms delivery_inv_listener by blast
next
  case False
  note o' = other_quiet [OF assms(4) False assms(2)]
  show ?thesis
  proof (cases "quiet (px s) (px t)")
    case True
    then show ?thesis using o' by (intro delivery_inv_quiet [OF assms(1) refl]) auto
  next
    case flush: False
    then obtain tm wr where "openStartupGate_locked tm wr (px s) = (True, px t)" using o' by blast
    moreover have "lst t = lst s" using o' flush by blast
    ultimately show ?thesis using o' by (intro delivery_inv_flush [OF assms(1,2)]) auto
  qed
qed

section \<open>Sessions, watchers and queues\<close>

text \<open>
  A session that is not stored is closed; a stored one has a watcher (or is about to get
  it); a queue's owner has a watcher that has not yet dropped the queue.
\<close>

fun phase_new :: "lphase \<Rightarrow> (udp_addr \<times> sid) option" where
  "phase_new (LCancel r key d v) = Some (key, v)"
| "phase_new (LWatch r key d v) = Some (key, v)"
| "phase_new l = None"

definition watch_inv :: "sys \<Rightarrow> bool" where
  "watch_inv s \<longleftrightarrow>
     (\<forall>v < next_sid (px s). v \<in> snd ` set (sessions (pstore (px s))) \<or> closed (sess_heap (px s) v))
   \<and> (\<forall>e \<in> set (sessions (pstore (px s))). e \<in> set (watchers (px s)) \<or> phase_new (lst s) = Some e)
   \<and> (\<forall>v \<in> fst ` set (queues (px s)). v \<in> snd ` set (watchers (px s)) \<or> v \<in> fst ` set (wq s))"

lemma keys_map_of: "v \<in> fst ` set m \<longleftrightarrow> map_of m v \<noteq> None"
  by (simp add: map_of_eq_None_iff)

lemma quiet_keys: "quiet p q \<Longrightarrow> fst ` set (queues q) \<subseteq> fst ` set (queues p)"
  unfolding keys_map_of [abs_def] subset_iff quiet_def by metis

lemma quiet_stored:
  assumes "quiet p q" "\<forall>v < next_sid p. v \<in> snd ` set (sessions (pstore p)) \<or> closed (sess_heap p v)"
  shows "\<forall>v < next_sid q. v \<in> snd ` set (sessions (pstore q)) \<or> closed (sess_heap q v)"
proof (intro allI impI)
  fix v assume "v < next_sid q"
  then have "v \<in> snd ` set (sessions (pstore p)) \<or> closed (sess_heap p v)" using assms by (simp add: quiet_def)
  then show "v \<in> snd ` set (sessions (pstore q)) \<or> closed (sess_heap q v)"
  proof
    assume "v \<in> snd ` set (sessions (pstore p))"
    then obtain e where e: "e \<in> set (sessions (pstore p))" "v = snd e" by blast
    then show ?thesis
      using assms(1) by (cases "e \<in> set (sessions (pstore q))") (auto simp: quiet_def image_iff)
  qed (use assms(1) in \<open>auto simp: quiet_def keeps_def\<close>)
qed

lemma watch_inv_quiet:
  assumes "watch_inv s" "quiet (px s) (px t)" "set (watchers (px s)) \<subseteq> set (watchers (px t))"
    "set (wq s) \<subseteq> set (wq t)" "phase_new (lst s) = None \<or> phase_new (lst t) = phase_new (lst s)"
  shows "watch_inv t"
proof -
  have "\<forall>v < next_sid (px t). v \<in> snd ` set (sessions (pstore (px t))) \<or> closed (sess_heap (px t) v)"
    using assms(1) by (intro quiet_stored [OF assms(2)]) (simp add: watch_inv_def)
  moreover have "e \<in> set (watchers (px t)) \<or> phase_new (lst t) = Some e" if "e \<in> set (sessions (pstore (px t)))" for e
    using assms that by (auto simp: watch_inv_def quiet_def)
  moreover have "v \<in> snd ` set (watchers (px t)) \<or> v \<in> fst ` set (wq t)" if "v \<in> fst ` set (queues (px t))" for v
    using that quiet_keys [OF assms(2)] assms(1,3,4) unfolding watch_inv_def by (meson image_mono subset_iff)
  ultimately show ?thesis unfolding watch_inv_def by blast
qed

lemma watch_inv_call:
  assumes "watch_inv s" "lst s = LCall i ready key d v" "data_inv s"
  shows "watch_inv (l_call now i ready key d v s)"
proof -
  obtain e a where r: "RecordActivity now (sess_heap (px s) v) = (e, a)" by (metis prod.collapse)
  let ?a = "(px s)\<lparr>sess_heap := (sess_heap (px s))(v := a)\<rparr>"
  have "watch_inv (s\<lparr>px := enqueueLocked v d ?a, lst := LQueued i ready key d v\<rparr>)" if "e = None"
  proof -
    have "\<not> closed (sess_heap (px s) v)" using r that closed_RecordActivity [of "sess_heap (px s) v" now] by auto
    moreover have "v < next_sid (px s)" using assms(2,3) by (simp add: data_inv_def)
    ultimately obtain x where "x \<in> set (sessions (pstore (px s)))" "v = snd x" using assms(1) by (auto simp: watch_inv_def)
    then have "v \<in> snd ` set (watchers (px s))" using assms(1,2) by (auto simp: watch_inv_def)
    moreover have "closed (sess_heap (px s) v) \<longrightarrow> closed a" using keeps_ops(3) [of "sess_heap (px s) v" now] r by (simp add: keeps_def)
    ultimately show ?thesis using assms(1,2) by (auto simp: watch_inv_def queues_keys_enqueueLocked)
  qed
  moreover have "watch_inv (after_call i ready key d v False s)"
    by (rule watch_inv_quiet [OF assms(1)]) (auto simp: assms(2) after_call_def)
  moreover have "watch_inv (s\<lparr>lst := LSend i ready key d v\<rparr>)"
    by (rule watch_inv_quiet [OF assms(1)]) (auto simp: assms(2))
  ultimately show ?thesis by (auto simp: l_call_def r split: option.split)
qed

lemma watch_inv_upd:
  assumes "watch_inv s" "closed (sess_heap (px s) v) \<longrightarrow> closed a" "lst s = LSend i ready key d v"
  shows "watch_inv (after_call i ready key d v b (s\<lparr>px := (px s)\<lparr>sess_heap := (sess_heap (px s))(v := a)\<rparr>\<rparr>))"
  using assms by (auto simp: watch_inv_def after_call_def)

lemma watch_inv_create:
  assumes "watch_inv s" "lst s = LCreate ready key d" "data_inv s"
  shows "watch_inv (l_create env ready key d s)"
  using assms(3) refl
proof (cases rule: l_create_cases [where env = env and ready = ready and key = key and d = d])
  case (dropped p)
  then show ?thesis by (intro watch_inv_quiet [OF assms(1)]) (auto simp: unlock_def assms(2))
next
  case (found v)
  then show ?thesis by (intro watch_inv_quiet [OF assms(1)]) (auto simp: assms(2))
next
  case (created a)
  have new: "set (AList.update key (next_sid (px s)) (sessions (pstore (px s))))
      = insert (key, next_sid (px s)) (set (sessions (pstore (px s))))"
    using created(2) by (simp add: Get_def update_new)
  show ?thesis using assms(1,2) unfolding created(1) watch_inv_def by (auto simp: new less_Suc_eq)
qed

lemma watchers_frames [simp]:
  "watchers (end_startup g p) = watchers p" "watchers (failStartup_locked now g perm p) = watchers p"
  "watchers (shutdown_locked p) = watchers p" "watchers (t_done p) = watchers p"
  "watchers (autoStopResult r g a p) = watchers p" "watchers (closeAllSessions p) = watchers p"
  "watchers (remove_session key v p) = watchers p"
  by (auto simp: end_startup_def failStartup_locked_def shutdown_locked_def t_done_def autoStopResult_def
      scheduleAutoStopAttemptLocked_def closeAllSessions_def remove_session_def Let_def
      split: prod.split option.split)

lemma watchers_results:
  "openStartupGate_locked tm wr p = (b, p1) \<Longrightarrow> watchers p1 = watchers p"
  "closeBackendGate_locked g p = (b, p1) \<Longrightarrow> watchers p1 = watchers p"
  "completeStartup now g p = (b, p1) \<Longrightarrow> watchers p1 = watchers p"
  by (auto simp: openStartupGate_locked_def closeBackendGate_locked_def completeStartup_def Let_def split: if_splits)

lemma others_keep_watchers:
  assumes "sys_step s th t" "th \<notin> {Listener_thread} \<union> range Watcher_thread"
  shows "watchers (px t) = watchers (px s) \<and> wq t = wq s"
  using assms(1)
proof cases
  case (step_status g sent answer)
  then show ?thesis by (auto simp: u_status_def split: sum.split server_state.split)
next
  case (step_open g tm wrs)
  then show ?thesis by (auto simp: u_open_def split: prod.split bool.split dest: watchers_results)
next
  case (step_finish g now)
  then show ?thesis by (auto simp: u_finish_def split: prod.split dest: watchers_results)
next
  case (step_close g f)
  then show ?thesis by (auto simp: m_close_def split: prod.split dest: watchers_results)
qed (use assms(2) in \<open>auto simp: u_gate_def u_fail_def t_fire_def t_lock_def t_accepted_def t_clear_def t_failed_def
    s_expire_def s_queues_def m_eval_def Let_def split: prod.splits\<close>)

lemma watch_remove_gone:
  assumes "store_inv (pstore p)" "watch_remove key v p = (c, p1)"
  shows "(key, v) \<notin> set (sessions (pstore p1))"
  using assms by (auto simp: watch_remove_def Remove_spec Let_def delete_filter store_inv_def gm_wf_def split: if_splits)

lemma watch_inv_removed:
  assumes "watch_inv s" "data_inv s" "(key, v) \<in> set (watchers (px s))"
  shows "watch_inv (w_remove key v s)"
proof -
  note inv = proxy_invD [OF data_invD [OF assms(2)]]
  obtain c p1 where w: "watch_remove key v (px s) = (c, p1)" by (metis prod.collapse)
  note f = watch_remove_frames [OF w] next_sid_results(4) [OF w]
  have q: "quiet (px s) (p1\<lparr>watchers := watchers p1\<rparr>)" by (rule quiet_watch_remove [OF inv(2) w])
  have gone: "(key, v) \<notin> set (sessions (pstore p1))" by (rule watch_remove_gone [OF inv(7) w])
  have "\<forall>u < next_sid p1. u \<in> snd ` set (sessions (pstore p1)) \<or> closed (sess_heap p1 u)"
    using quiet_stored [OF q] assms(1) by (simp add: watch_inv_def)
  moreover have "e \<in> set (remove1 (key, v) (watchers (px s))) \<or> phase_new (lst s) = Some e"
    if "e \<in> set (sessions (pstore p1))" for e
  proof -
    have "e \<in> set (sessions (pstore (px s)))" "e \<noteq> (key, v)" using that gone sessions_shrink(2) [OF w] by auto
    then show ?thesis using assms(1) in_set_remove1 [of e "(key, v)"] unfolding watch_inv_def by blast
  qed
  moreover have "u \<in> snd ` set (remove1 (key, v) (watchers (px s))) \<or> u = v \<or> u \<in> fst ` set (wq s)"
    if "u \<in> fst ` set (queues (px s))" for u
  proof -
    have "u \<in> snd ` set (watchers (px s)) \<Longrightarrow> u \<noteq> v \<Longrightarrow> u \<in> snd ` set (remove1 (key, v) (watchers (px s)))"
      by (auto simp: image_iff intro!: bexI [rotated] simp: in_set_remove1)
    then show ?thesis using assms(1) that unfolding watch_inv_def by blast
  qed
  ultimately show ?thesis using f by (cases c) (auto simp: w_remove_def w watch_inv_def)
qed

lemma watch_inv_wqueue:
  assumes "watch_inv s" "data_inv s"
  shows "watch_inv (w_queue v b s)"
proof -
  have q: "quiet (px s) (removeQueue v (px s))" by (rule quiet_ops)
  have k: "fst ` set (queues (removeQueue v (px s))) = fst ` set (queues (px s)) - {v}"
    by (auto simp: queues_removeQueue delete_filter)
  have "\<forall>u < next_sid (px s). u \<in> snd ` set (sessions (pstore (px s))) \<or> closed (sess_heap (px s) u)"
    using assms(1) by (simp add: watch_inv_def)
  moreover have "u \<in> snd ` set (watchers (px s)) \<or> u \<in> fst ` set (remove1 (v, b) (wq s))"
    if "u \<in> fst ` set (queues (px s))" "u \<noteq> v" for u
  proof -
    have "u \<in> fst ` set (wq s) \<Longrightarrow> u \<in> fst ` set (remove1 (v, b) (wq s))"
      using that(2) by (auto simp: image_iff intro!: bexI [rotated] simp: in_set_remove1)
    then show ?thesis using assms(1) that(1) unfolding watch_inv_def by blast
  qed
  ultimately show ?thesis using assms(1) k by (auto simp: w_queue_def watch_inv_def)
qed

lemma watch_inv_listener:
  assumes "watch_inv s" "data_inv s" "sys_step s Listener_thread t"
  shows "watch_inv t"
proof -
  have ok: "store_ok (pstore (px s)) (sess_heap (px s))" by (rule proxy_invD(2) [OF data_invD [OF assms(2)]])
  note q = watch_inv_quiet [OF assms(1)]
  from assms(3) show ?thesis
  proof cases
    case (step_get key d)
    then show ?thesis by (intro q) (auto simp: l_get_def split: option.split)
  next
    case (step_call i ready key d v now)
    then show ?thesis using watch_inv_call [OF assms(1) _ assms(2)] by simp
  next
    case (step_queued i ready key d v now)
    then show ?thesis by (intro q) (auto simp: l_queued_def after_call_def quiet_ops)
  next
    case (step_send i ready key d v now wr)
    obtain e a where r: "ForwardClient now wr d (sess_heap (px s) v) = (e, a)" by (metis prod.collapse)
    then show ?thesis using step_send ForwardClient_keeps [OF r] by (auto simp: l_send_def r intro: watch_inv_upd [OF assms(1)])
  next
    case (step_look key d)
    then show ?thesis by (intro q) (auto simp: l_look_def split: option.split)
  next
    case (step_stale key d v)
    then show ?thesis by (intro q) (auto simp: quiet_remove_session [OF ok])
  next
    case (step_create ready key d env)
    then show ?thesis using watch_inv_create [OF assms(1) _ assms(2)] by simp
  next
    case (step_watch ready key d v)
    then show ?thesis using assms(1) by (auto simp: watch_inv_def watchSession_def)
  qed ((rule q; auto simp: quiet_ops l_read_def l_gate_def l_end_def unlock_def)+)
qed

lemma watch_inv_step:
  assumes "watch_inv s" "data_inv s" "sys_step s th t"
  shows "watch_inv t"
proof (cases "th \<in> {Listener_thread} \<union> range Watcher_thread")
  case True
  then show ?thesis
  proof
    assume "th \<in> range Watcher_thread"
    then obtain w where "th = Watcher_thread w" by blast
    from assms(3) [unfolded this] show ?thesis
    proof cases
      case (step_removed key)
      then show ?thesis using watch_inv_removed [OF assms(1,2)] by simp
    next
      case (step_wqueue b)
      then show ?thesis using watch_inv_wqueue [OF assms(1,2)] by simp
    next
      case (step_wsched n)
      then show ?thesis by (intro watch_inv_quiet [OF assms(1)]) (auto simp: quiet_ops)
    qed
  qed (use assms watch_inv_listener in auto)
next
  case False
  note w = others_keep_watchers [OF assms(3) False]
  have o': "lst t = lst s \<or> lst s = LIdle \<and> lst t = LDone \<and> quiet (px s) (px t)"
      "quiet (px s) (px t) \<or> (\<exists>tm wr. openStartupGate_locked tm wr (px s) = (True, px t))"
    using other_quiet [OF assms(3) _ assms(2)] False by auto
  show ?thesis
  proof (cases "quiet (px s) (px t)")
    case True
    then show ?thesis using o' w by (intro watch_inv_quiet [OF assms(1)]) auto
  next
    case flush: False
    then obtain tm wr where g: "openStartupGate_locked tm wr (px s) = (True, px t)" using o' by blast
    note f = flush_handed [OF data_invD [OF assms(2)] g]
    show ?thesis using assms(1) o' w f flush by (auto simp: watch_inv_def)
  qed
qed

section \<open>After shutdown\<close>

definition end_inv :: "sys \<Rightarrow> bool" where
  "end_inv s \<longleftrightarrow> (shuttingDown (px s) \<longrightarrow>
     lst s = LDone \<and> (adm s \<noteq> HCloseAll \<longrightarrow> sessions (pstore (px s)) = []))"

lemma shutting_frames [simp]:
  "shuttingDown (end_startup g p) = shuttingDown p" "shuttingDown (failStartup_locked now g perm p) = shuttingDown p"
  "shuttingDown (t_done p) = shuttingDown p" "shuttingDown (autoStopResult r g a p) = shuttingDown p"
  "shuttingDown (closeAllSessions p) = shuttingDown p" "shuttingDown (remove_session key v p) = shuttingDown p"
  "shuttingDown (shutdown_locked p)"
  by (auto simp: end_startup_def failStartup_locked_def t_done_def autoStopResult_def shutdown_locked_def
      scheduleAutoStopAttemptLocked_def closeAllSessions_def remove_session_def Let_def
      split: prod.split option.split)

lemma shutting_results:
  "openStartupGate_locked tm wr p = (b, p1) \<Longrightarrow> shuttingDown p1 = shuttingDown p"
  "closeBackendGate_locked g p = (b, p1) \<Longrightarrow> shuttingDown p1 = shuttingDown p"
  "completeStartup now g p = (b, p1) \<Longrightarrow> shuttingDown p1 = shuttingDown p"
  by (auto simp: openStartupGate_locked_def closeBackendGate_locked_def completeStartup_def Let_def split: if_splits)

lemma shutting_step:
  assumes "sys_step s th t" "th \<noteq> Listener_thread"
  shows "(shuttingDown (px t) \<longrightarrow> shuttingDown (px s) \<or> lst t = LDone \<and> adm t = HCloseAll)
     \<and> (adm s = HCloseAll \<and> adm t \<noteq> HCloseAll \<longrightarrow> sessions (pstore (px t)) = [])"
  using assms(1)
proof cases
  case (step_status g sent answer)
  then show ?thesis by (auto simp: u_status_def split: sum.split server_state.split)
next
  case (step_open g tm wrs)
  then show ?thesis by (auto simp: u_open_def split: prod.split bool.split dest: shutting_results)
next
  case (step_finish g now)
  then show ?thesis by (auto simp: u_finish_def split: prod.split dest: shutting_results)
next
  case (step_close g f)
  then show ?thesis by (auto simp: m_close_def split: prod.split dest: shutting_results)
next
  case (step_removed key v)
  then show ?thesis by (auto simp: w_remove_def split: prod.split dest: watch_remove_frames)
qed (use assms(2) in \<open>auto simp: u_gate_def u_fail_def t_fire_def t_lock_def t_accepted_def t_clear_def t_failed_def
    w_queue_def s_expire_def s_queues_def m_eval_def sessions_shrink Let_def split: prod.splits if_splits\<close>)

lemma listener_shutting:
  assumes "sys_step s Listener_thread t"
  shows "lst s \<noteq> LDone \<and> shuttingDown (px t) = shuttingDown (px s)"
  using assms
proof cases
  case (step_create ready key d env)
  then show ?thesis using start_fields_create [of env ready key d s] by (simp add: start_fields_def)
qed (auto simp: l_read_def l_get_def l_call_def l_queued_def l_send_def l_look_def l_gate_def l_end_def unlock_def
    split: prod.split option.split)

lemma end_inv_step:
  assumes "end_inv s" "data_inv s" "sys_step s th t"
  shows "end_inv t"
proof (cases "th = Listener_thread")
  case True
  then show ?thesis using assms(1,3) listener_shutting by (auto simp: end_inv_def)
next
  case False
  note o' = other_quiet [OF assms(3) False assms(2)] and sh = shutting_step [OF assms(3) False]
  have "sessions (pstore (px s)) = [] \<Longrightarrow> sessions (pstore (px t)) = []"
  proof (cases "quiet (px s) (px t)")
    case False
    then obtain tm wr where "openStartupGate_locked tm wr (px s) = (True, px t)" using o' by blast
    then show "sessions (pstore (px s)) = [] \<Longrightarrow> sessions (pstore (px t)) = []"
      using flush_handed(3) [OF data_invD [OF assms(2)]] by simp
  qed (simp add: quiet_def)
  then show ?thesis using assms(1) o' sh by (auto simp: end_inv_def)
qed

section \<open>The invariant of all runs\<close>

definition sys_inv :: "sys \<Rightarrow> bool" where
  "sys_inv s \<longleftrightarrow> data_inv s \<and> lock_inv s \<and> start_inv (px s) \<and> delivery_inv s \<and> watch_inv s \<and> end_inv s"

lemma Serve_begin_fields:
  assumes "New o' = Inr p"
  shows "pstore (Serve_begin ctxe now st p) = \<lparr>store_max = MaxSessions o', sessions = []\<rparr>"
    "queues (Serve_begin ctxe now st p) = []" "next_sid (Serve_begin ctxe now st p) = 0"
    "sess_heap (Serve_begin ctxe now st p) = (\<lambda>_. blank_session)" "\<not> shuttingDown (Serve_begin ctxe now st p)"
    "watchers (Serve_begin ctxe now st p) = []" "start_inv (Serve_begin ctxe now st p)"
    "opts (Serve_begin ctxe now st p) = default_options o'" "proxy_inv 0 (Serve_begin ctxe now st p)"
proof -
  have p: "opts p = default_options o'" "pstore p = \<lparr>store_max = MaxSessions o', sessions = []\<rparr>" "queues p = []"
      "next_sid p = 0" "sess_heap p = (\<lambda>_. blank_session)" "\<not> shuttingDown p" "watchers p = []" "startups p = []"
      "\<not> startupRunning p"
    using New_cases [of o'] assms by (auto split: if_splits)
  show "proxy_inv 0 (Serve_begin ctxe now st p)"
    by (rule proxy_inv_Serve_begin [OF proxy_inv_New [OF assms] p(3,6)])
  show "start_inv (Serve_begin ctxe now st p)"
    using p by (auto simp: Serve_begin_def Let_def start_inv_def startServer_def)
qed (use New_cases [of o'] assms in \<open>auto simp: Serve_begin_def Let_def split: if_splits\<close>)

lemma sys_inv_init: "sys_init s \<Longrightarrow> sys_inv s"
proof -
  assume i: "sys_init s"
  then obtain o' p ctxe now st where o': "New o' = Inr p" "px s = Serve_begin ctxe now st p"
    by (auto simp: sys_init_def)
  note f = Serve_begin_fields [OF o'(1), of ctxe now st, folded o'(2)]
  have "handed (px s) v = []" for v by (simp add: handed_def f blank_session_def)
  then show ?thesis using i f
    by (auto simp: sys_inv_def sys_init_def data_inv_def lock_inv_def delivery_inv_def watch_inv_def end_inv_def
        callbacks_def Len_zero)
qed

interpretation pr: inductive_invariant sys_init sys_step sys_inv
proof unfold_locales
  fix s :: sys
  assume "sys_init s"
  then show "sys_inv s" by (rule sys_inv_init)
next
  fix s th t
  assume "sys_inv s" "sys_step s th t"
  then show "sys_inv t"
    unfolding sys_inv_def by (blast intro: data_inv_step lock_inv_step start_inv_step delivery_inv_step
        watch_inv_step end_inv_step)
qed

end
