(* ===== verification/ProxyRefine.thy ===== *)
theory ProxyRefine
  imports ProxyRuns
begin

text \<open>
  The transition system and the sequential definitions describe the same handler: when no
  other goroutine takes a step, the listener's steps for one datagram compose to
  \<open>handleClientPacket\<close>. Then the properties of all runs of the proxy.
\<close>

section \<open>The handler as a run of the listener\<close>

definition listener_run :: "sys \<Rightarrow> sys \<Rightarrow> bool" where
  "listener_run s t \<longleftrightarrow> (\<exists>n. steps sys_step s (replicate n Listener_thread) t)"

lemma steps_append: "steps step s ls t \<Longrightarrow> steps step t ms u \<Longrightarrow> steps step s (ls @ ms) u"
  by (induction rule: steps.induct) auto

lemma run_refl [simp]: "listener_run s s"
  unfolding listener_run_def by (rule exI [of _ 0]) simp

lemma run_step: "sys_step s Listener_thread t \<Longrightarrow> listener_run t u \<Longrightarrow> listener_run s u"
  unfolding listener_run_def by (metis replicate_Suc steps_Cons)

lemma run_trans: "listener_run s t \<Longrightarrow> listener_run t u \<Longrightarrow> listener_run s u"
  unfolding listener_run_def by (metis replicate_add steps_append)

lemma run_one: "sys_step s Listener_thread t \<Longrightarrow> listener_run s t"
  by (rule run_step [OF _ run_refl])

lemma heap_self: "p\<lparr>sess_heap := (sess_heap p)(v := sess_heap p v)\<rparr> = p"
  by simp

text \<open>One call of \<open>forwardOrQueue\<close>.\<close>

lemma run_call:
  assumes "lst s = LCall i ready key d v" "\<not> wlocked (adm s)"
    "forwardOrQueue now now' wr v d (px s) = (b, p1)"
  shows "listener_run s (after_call i ready key d v b (s\<lparr>px := p1\<rparr>))"
proof (cases "backendReady (px s)")
  case True
  obtain e a where f: "ForwardClient now wr d (sess_heap (px s) v) = (e, a)" by (metis prod.collapse)
  let ?s = "s\<lparr>lst := LSend i ready key d v\<rparr>"
  have 1: "sys_step s Listener_thread ?s"
    using step_call [OF assms(1,2), of now] True by (simp add: l_call_def)
  have 2: "sys_step ?s Listener_thread (l_send now wr i ready key d v ?s)"
    by (rule step_send) simp
  have "b = (e = None)" "p1 = (px s)\<lparr>sess_heap := (sess_heap (px s))(v := a)\<rparr>"
    using assms(3) True f by (auto simp: forwardOrQueue_def split: option.splits)
  then have "l_send now wr i ready key d v ?s = after_call i ready key d v b (s\<lparr>px := p1\<rparr>)"
    by (simp add: l_send_def f after_call_def)
  with run_step [OF 1 run_one [OF 2]] show ?thesis by simp
next
  case False
  obtain e a where r: "RecordActivity now (sess_heap (px s) v) = (e, a)" by (metis prod.collapse)
  let ?t = "l_call now i ready key d v s"
  have 1: "sys_step s Listener_thread ?t" by (rule step_call [OF assms(1,2)])
  show ?thesis
  proof (cases e)
    case None
    let ?p = "enqueueLocked v d ((px s)\<lparr>sess_heap := (sess_heap (px s))(v := a)\<rparr>)"
    have t: "?t = s\<lparr>px := ?p, lst := LQueued i ready key d v\<rparr>"
      using False r None by (simp add: l_call_def)
    have 2: "sys_step ?t Listener_thread (l_queued now' i ready key d v ?t)"
      by (rule step_queued) (simp add: t)
    have "b" "p1 = startServer now' ?p" using assms(3) False r None by (auto simp: forwardOrQueue_def)
    then have "l_queued now' i ready key d v ?t = after_call i ready key d v b (s\<lparr>px := p1\<rparr>)"
      by (simp add: l_queued_def t after_call_def)
    with run_step [OF 1 run_one [OF 2]] show ?thesis by simp
  next
    case (Some x)
    then have "a = sess_heap (px s) v"
      using r by (auto simp: RecordActivity_def touch_def split: if_splits)
    then have "\<not> b" "p1 = px s" using assms(3) False r Some heap_self by (auto simp: forwardOrQueue_def)
    then show ?thesis using 1 False r Some by (auto simp: l_call_def intro: run_one)
  qed
qed

text \<open>The part under \<open>admissionMu\<close> once no session is stored.\<close>

lemma run_admit:
  assumes "lst s = LGate key d" "adm s = HListener"
  shows "listener_run s (unlock (s\<lparr>px := admit env key d (px s)\<rparr>))"
proof -
  let ?gated = "time_Before (pe_gate_now env) (startupBlockedUntil (px s))
      \<or> (\<not> backendReady (px s) \<and> \<not> backendRunning (px s) \<and> \<not> detects (px s) d)"
  have 1: "sys_step s Listener_thread (l_gate (pe_gate_now env) key d s)" by (rule step_gate [OF assms(1)])
  show ?thesis
  proof (cases ?gated)
    case True
    then have "admit env key d (px s) = px s" by (auto simp: admit_def detects_def Let_def)
    moreover have "l_gate (pe_gate_now env) key d s = unlock s" using True by (auto simp: l_gate_def)
    ultimately show ?thesis using run_one [OF 1] by simp
  next
    case False
    let ?r = "backendReady (px s)" and ?s1 = "s\<lparr>lst := LCreate (backendReady (px s)) key d\<rparr>"
    have s1: "l_gate (pe_gate_now env) key d s = ?s1" using False by (auto simp: l_gate_def)
    have 2: "sys_step ?s1 Listener_thread (l_create env ?r key d ?s1)" by (rule step_create) simp
    have nb: "\<not> time_Before (pe_gate_now env) (startupBlockedUntil (px s))"
        "\<not> (\<not> ?r \<and> \<not> backendRunning (px s)
           \<and> \<not> (case Detector (opts (px s)) of None \<Rightarrow> False | Some det \<Rightarrow> det d))"
      using False unfolding detects_def by blast+
    have ad: "admit env key d (px s) =
       (case GetOrCreate key (session_factory env key (px s)) (pstore (px s)) (sess_heap (px s)) of
          ((sess, created, activeCount, Some err), st, h) \<Rightarrow>
            (let p1 = (px s)\<lparr>pstore := st, sess_heap := h\<rparr>
             in if errors_Is (Some err) ErrSessionCapacity
                then snd (shouldLogCapacityWarning (pe_warn_now env) p1) else p1)
        | ((sess, created, activeCount, None), st, h) \<Rightarrow>
            (case sess of
               None \<Rightarrow> px s
             | Some v \<Rightarrow>
                 let p1 = (px s)\<lparr>pstore := st, sess_heap := h,
                            next_sid := (if created then next_sid (px s) + 1 else next_sid (px s))\<rparr>;
                     p2 = (if created then watchSession key v (cancelAutoStop p1) else p1);
                     p3 = snd (forwardOrQueue (pe_now env 2) (pe_start env 2) (pe_wr env 2) v d p2)
                 in if \<not> ?r then startServer (pe_start_now env) p3 else p3))"
      unfolding admit_def Let_def by (subst if_not_P [OF nb(1)], subst if_not_P [OF nb(2)]) (rule refl)
    obtain r created n err st h where g: "GetOrCreate key (session_factory env key (px s)) (pstore (px s))
        (sess_heap (px s)) = ((r, created, n, err), st, h)" by (metis prod.collapse)
    have c: "listener_run s (l_create env ?r key d ?s1)" by (rule run_step [OF 1 [unfolded s1] run_one [OF 2]])
    show ?thesis
    proof (cases "err = None \<and> r \<noteq> None")
      case False
      then have "l_create env ?r key d ?s1 = unlock (s\<lparr>px := admit env key d (px s)\<rparr>)"
        by (cases err; cases r) (simp_all add: l_create_def g ad unlock_def Let_def)
      then show ?thesis using c by simp
    next
      case True
      then obtain v where v: "r = Some v" "err = None" by auto
      define p1 where "p1 = (px s)\<lparr>pstore := st, sess_heap := h,
          next_sid := (if created then next_sid (px s) + 1 else next_sid (px s))\<rparr>"
      define p2 where "p2 = (if created then watchSession key v (cancelAutoStop p1) else p1)"
      let ?s2 = "s\<lparr>px := p2, lst := LCall 2 ?r key d v\<rparr>"
      have s2: "listener_run (l_create env ?r key d ?s1) ?s2"
      proof (cases created)
        case True
        have t: "l_create env ?r key d ?s1 = s\<lparr>px := p1, lst := LCancel ?r key d v\<rparr>"
          using True v by (simp add: l_create_def g p1_def)
        have a: "sys_step (s\<lparr>px := p1, lst := LCancel ?r key d v\<rparr>) Listener_thread
            (s\<lparr>px := cancelAutoStop p1, lst := LWatch ?r key d v\<rparr>)"
          using step_cancel [of "s\<lparr>px := p1, lst := LCancel ?r key d v\<rparr>"] by simp
        have b: "sys_step (s\<lparr>px := cancelAutoStop p1, lst := LWatch ?r key d v\<rparr>) Listener_thread ?s2"
          using step_watch [of "s\<lparr>px := cancelAutoStop p1, lst := LWatch ?r key d v\<rparr>"] True by (simp add: p2_def)
        show ?thesis unfolding t by (rule run_step [OF a run_one [OF b]])
      next
        case False
        then have "l_create env ?r key d ?s1 = ?s2" using v by (simp add: l_create_def g p1_def p2_def)
        then show ?thesis by simp
      qed
      obtain b p3 where f: "forwardOrQueue (pe_now env 2) (pe_start env 2) (pe_wr env 2) v d p2 = (b, p3)"
        by (metis prod.collapse)
      let ?s3 = "s\<lparr>px := p3, lst := LStart ?r\<rparr>"
      have s3: "listener_run ?s2 ?s3"
        using run_call [of ?s2 2 ?r key d v] f assms(2) by (simp add: after_call_def)
      have e: "sys_step ?s3 Listener_thread (l_end (pe_start_now env) ?r ?s3)" by (rule step_end) simp
      have "l_end (pe_start_now env) ?r ?s3 = unlock (s\<lparr>px := admit env key d (px s)\<rparr>)"
      proof -
        have "admit env key d (px s) = (if ?r then p3 else startServer (pe_start_now env) p3)"
          using f v by (cases created) (simp_all add: ad g p1_def p2_def)
        then show ?thesis by (simp add: l_end_def unlock_def)
      qed
      with run_trans [OF c run_trans [OF s2 run_trans [OF s3 run_one [OF e]]]] show ?thesis by simp
    qed
  qed
qed

lemma run_locked:
  assumes "lst s = LLock key d" "adm s = Free"
  shows "listener_run s (unlock (s\<lparr>px :=
    (case try_existing env 1 key d (px s) of
       (True, _, p2) \<Rightarrow> p2
     | (False, Some existing, p2) \<Rightarrow> admit env key d (drop_stale key existing p2)
     | (False, None, p2) \<Rightarrow> admit env key d p2)\<rparr>))"
proof -
  let ?s1 = "s\<lparr>lst := LLook key d, adm := HListener\<rparr>"
  have 1: "listener_run s ?s1" by (rule run_one [OF step_lock [OF assms]])
  have 2: "sys_step ?s1 Listener_thread (l_look key d ?s1)" by (rule step_look) simp
  show ?thesis
  proof (cases "Get key (pstore (px s))")
    case None
    let ?s2 = "s\<lparr>lst := LGate key d, adm := HListener\<rparr>"
    have "l_look key d ?s1 = ?s2" using None by (simp add: l_look_def)
    then have "listener_run s ?s2" using run_trans [OF 1 run_one [OF 2]] by simp
    moreover have "listener_run ?s2 (unlock (?s2\<lparr>px := admit env key d (px s)\<rparr>))"
      using run_admit [of ?s2 key d env] by simp
    ultimately show ?thesis using None run_trans by (fastforce simp: try_existing_def unlock_def)
  next
    case (Some v)
    obtain b p1 where f: "forwardOrQueue (pe_now env 1) (pe_start env 1) (pe_wr env 1) v d (px s) = (b, p1)"
      by (metis prod.collapse)
    let ?s2 = "s\<lparr>lst := LCall 1 False key d v, adm := HListener\<rparr>"
    have l: "l_look key d ?s1 = ?s2" using Some by (simp add: l_look_def)
    have r: "listener_run s (after_call 1 False key d v b (?s2\<lparr>px := p1\<rparr>))"
      using run_trans [OF run_trans [OF 1 run_one [OF 2 [unfolded l]]] run_call [of ?s2 1 False key d v]] f
      by simp
    show ?thesis
    proof (cases b)
      case True
      then show ?thesis using r f Some by (simp add: try_existing_def after_call_def unlock_def)
    next
      case False
      let ?s3 = "s\<lparr>adm := HListener, px := p1, lst := LStale key d v\<rparr>"
      let ?p2 = "removeQueue v (remove_session key v p1)"
      let ?s4 = "s\<lparr>adm := HListener, px := remove_session key v p1, lst := LStaleQ key d v\<rparr>"
      let ?s5 = "s\<lparr>adm := HListener, px := ?p2, lst := LGate key d\<rparr>"
      have r3: "listener_run s ?s3" using r False by (simp add: after_call_def)
      have r4: "sys_step ?s3 Listener_thread ?s4" using step_stale [of ?s3 key d v] by simp
      have r5: "sys_step ?s4 Listener_thread ?s5" using step_staleQ [of ?s4 key d v] by simp
      have p2: "drop_stale key v p1 = ?p2"
        by (simp add: drop_stale_def remove_session_def Let_def split: prod.split)
      have r6: "listener_run ?s5 (unlock (?s5\<lparr>px := admit env key d ?p2\<rparr>))"
        using run_admit [of ?s5 key d env] by simp
      have "listener_run s (unlock (?s5\<lparr>px := admit env key d ?p2\<rparr>))"
        by (rule run_trans [OF r3 run_step [OF r4 run_step [OF r5 r6]]])
      then show ?thesis using f False Some p2 by (simp add: try_existing_def unlock_def)
    qed
  qed
qed

lemma run_handler:
  assumes "lst s = LIdle" "adm s = Free"
  shows "listener_run s (s\<lparr>px := handleClientPacket env key d (px s), recv := recv s @ [(key, d)]\<rparr>)"
proof -
  have idle: "s\<lparr>recv := r, px := p, lst := LIdle, adm := Free\<rparr> = s\<lparr>px := p, recv := r\<rparr>"
    "s\<lparr>recv := r, px := p, lst := LIdle\<rparr> = s\<lparr>px := p, recv := r\<rparr>" "s\<lparr>recv := r, lst := LIdle\<rparr> = s\<lparr>recv := r\<rparr>"
    "s\<lparr>px := p, recv := r, adm := Free\<rparr> = s\<lparr>px := p, recv := r\<rparr>" for p r
    using assms by (cases s, simp)+
  have 1: "listener_run s (l_read key d s)" by (rule run_one [OF step_read [OF assms(1)]])
  show ?thesis
  proof (cases "d = []")
    case True
    then show ?thesis using 1 by (simp add: l_read_def handleClientPacket_def idle)
  next
    case d: False
    let ?s1 = "s\<lparr>recv := recv s @ [(key, d)], lst := LFirst key d\<rparr>"
    have s1: "l_read key d s = ?s1" using d by (simp add: l_read_def)
    have 2: "sys_step ?s1 Listener_thread (l_get key d ?s1)" by (rule step_get) simp
    obtain b e p1 where t: "try_existing env 0 key d (px s) = (b, e, p1)" by (metis prod_cases3)
    have first: "listener_run s (s\<lparr>recv := recv s @ [(key, d)], px := p1, lst := (if b then LIdle else LLock key d)\<rparr>)"
    proof (cases "Get key (pstore (px s))")
      case None
      then have "l_get key d ?s1 = ?s1\<lparr>lst := LLock key d\<rparr>" "b = False" "p1 = px s"
        using t by (auto simp: l_get_def try_existing_def)
      then show ?thesis using run_trans [OF 1 [unfolded s1] run_one [OF 2]] by simp
    next
      case (Some v)
      let ?s2 = "s\<lparr>recv := recv s @ [(key, d)], lst := LCall 0 False key d v\<rparr>"
      have l: "l_get key d ?s1 = ?s2" using Some by (simp add: l_get_def)
      have f: "forwardOrQueue (pe_now env 0) (pe_start env 0) (pe_wr env 0) v d (px ?s2) = (b, p1)"
        using t Some by (auto simp: try_existing_eq prod_eq_iff)
      have "listener_run ?s2 (after_call 0 False key d v b (?s2\<lparr>px := p1\<rparr>))"
        by (rule run_call [OF _ _ f]) (simp_all add: assms(2))
      then show ?thesis using run_trans [OF run_trans [OF 1 [unfolded s1] run_one [OF 2]]] l
        by (simp add: after_call_def)
    qed
    show ?thesis
    proof (cases b)
      case True
      then have "handleClientPacket env key d (px s) = p1" using d t by (simp add: handleClientPacket_def)
      then show ?thesis using first True by (simp add: idle)
    next
      case False
      let ?s2 = "s\<lparr>recv := recv s @ [(key, d)], px := p1, lst := LLock key d\<rparr>"
      have "listener_run s ?s2" using first False by simp
      from run_trans [OF this run_locked [of ?s2 key d env]]
      have "listener_run s (unlock (?s2\<lparr>px :=
          (case try_existing env 1 key d p1 of
             (True, _, p2) \<Rightarrow> p2
           | (False, Some existing, p2) \<Rightarrow> admit env key d (drop_stale key existing p2)
           | (False, None, p2) \<Rightarrow> admit env key d p2)\<rparr>))" using assms(2) by simp
      moreover have "handleClientPacket env key d (px s) =
          (case try_existing env 1 key d p1 of
             (True, _, p2) \<Rightarrow> p2
           | (False, Some existing, p2) \<Rightarrow> admit env key d (drop_stale key existing p2)
           | (False, None, p2) \<Rightarrow> admit env key d p2)"
        using d t False by (simp add: handleClientPacket_def)
      ultimately show ?thesis by (simp add: unlock_def idle)
    qed
  qed
qed

text \<open>
  C8: Refinement: the steps the listener takes for one datagram, when no other goroutine
  interferes, lead from the idle state back to the idle state with \<open>admissionMu\<close> free and
  change the proxy exactly as the sequential handler \<open>handleClientPacket\<close> does.
\<close>

theorem handleClientPacket_is_listener_run:
  assumes "lst s = LIdle" "adm s = Free"
  shows "\<exists>n. steps sys_step s (replicate n Listener_thread)
     (s\<lparr>px := handleClientPacket env key d (px s), recv := recv s @ [(key, d)]\<rparr>)"
  using run_handler [OF assms] by (simp add: listener_run_def)

definition ex_sys :: sys where
  "ex_sys = \<lparr>px = Serve_begin None unix_epoch (Inr StateOffline) ex_proxy, lst = LIdle, adm = Free,
     suph = (\<lambda>_. SuPoll False), fired = [], wq = [], wsched = 0, fin = 0, swp = SwIdle, mon = MIdle hf_zero, recv = []\<rparr>"

lemma ex_sys_init: "sys_init ex_sys"
proof -
  have "\<exists>o' p ctxe now st. New o' = Inr p \<and> px ex_sys = Serve_begin ctxe now st p"
    by (intro exI conjI, rule ex_proxy_New) (simp add: ex_sys_def)
  then show ?thesis by (simp add: sys_init_def) (simp add: ex_sys_def)
qed

text \<open>The state after the listener handled a wake datagram.\<close>

definition ex_awake :: sys where
  "ex_awake = ex_sys\<lparr>px := handleClientPacket ex_env ''a'' [9] (px ex_sys), recv := recv ex_sys @ [(''a'', [9])]\<rparr>"

theorem handleClientPacket_is_listener_run_witness:
  "\<exists>n. steps sys_step ex_sys (replicate n Listener_thread) ex_awake"
  unfolding ex_awake_def
  by (rule handleClientPacket_is_listener_run) (simp_all add: ex_sys_def)

lemma reach_run: "reach sys_init sys_step s \<Longrightarrow> listener_run s t \<Longrightarrow> reach sys_init sys_step t"
  by (auto simp: listener_run_def intro: reach_steps)

lemma ex_awake_reach: "reach sys_init sys_step ex_awake"
proof (rule reach_run)
  show "reach sys_init sys_step ex_sys" by (rule reach_init [of sys_init, OF ex_sys_init])
  show "listener_run ex_sys ex_awake"
    unfolding ex_awake_def by (rule run_handler) (simp_all add: ex_sys_def)
qed

lemma sys_invD:
  assumes "reach sys_init sys_step s"
  shows "data_inv s" "lock_inv s" "start_inv (px s)" "delivery_inv s" "watch_inv s" "end_inv s"
    "proxy_inv (callbacks s) (px s)"
  using pr.inv_reach [OF assms] data_invD by (auto simp: sys_inv_def)

section \<open>Properties of all runs\<close>


text \<open>A stop request begins only where the callback takes \<open>admissionMu\<close>.\<close>

lemma adm_create: "adm (l_create env ready key d s) \<in> {Free, adm s}"
proof -
  obtain r created n err st h where g: "GetOrCreate key (session_factory env key (px s)) (pstore (px s))
      (sess_heap (px s)) = ((r, created, n, err), st, h)" by (metis prod.collapse)
  show ?thesis unfolding l_create_def g by (cases err; cases r) (simp_all add: unlock_def Let_def)
qed

lemma stop_begins:
  assumes "sys_step s th t" "adm t = HStop u" "adm s \<noteq> HStop u"
  shows "autoStopAllowed (timer_generation u) (px s)"
  using assms(1)
proof cases
  case (step_tlock v)
  then show ?thesis using assms(2,3) by (auto simp: t_lock_def Let_def split: if_splits)
next
  case (step_status g sent answer)
  then show ?thesis using assms(2,3) by (auto simp: u_status_def split: sum.splits server_state.splits)
next
  case (step_call i ready key d v now)
  then show ?thesis using assms(2,3)
    by (auto simp: l_call_def after_call_def split: prod.splits option.splits if_splits)
next
  case (step_send i ready key d v now wr)
  then show ?thesis using assms(2,3) by (auto simp: l_send_def after_call_def split: prod.splits if_splits)
next
  case (step_queued i ready key d v now)
  then show ?thesis using assms(2,3) by (auto simp: l_queued_def after_call_def split: if_splits)
next
  case (step_create ready key d env)
  then show ?thesis using assms(2,3) adm_create [of env ready key d s] by auto
qed (use assms(2,3) in \<open>auto simp: l_read_def l_get_def l_look_def l_gate_def l_end_def unlock_def u_open_def u_gate_def
    u_fail_def u_finish_def t_fire_def t_accepted_def t_clear_def t_failed_def w_remove_def w_queue_def s_expire_def
    s_queues_def m_eval_def m_close_def Let_def split: prod.splits if_splits option.splits bool.splits\<close>)

text \<open>
  A run that reaches a stop request: the backend is found running when the proxy starts, the
  startup procedure confirms it and opens the gate without a session, and the timer fires.
\<close>

definition ex_found :: sys where
  "ex_found = ex_sys\<lparr>px := Serve_begin None unix_epoch (Inr StateRunning) ex_proxy\<rparr>"

definition ex_gen :: uint64 where
  "ex_gen = startupGeneration (px ex_found)"

lemma ex_found_init: "sys_init ex_found"
proof -
  have "\<exists>o' p ctxe now st. New o' = Inr p \<and> px ex_found = Serve_begin ctxe now st p"
    by (intro exI conjI, rule ex_proxy_New) (simp add: ex_found_def)
  then show ?thesis by (simp add: sys_init_def) (simp add: ex_found_def ex_sys_def)
qed

lemma ex_found_fields:
  "startups (px ex_found) = [ex_gen]" "\<not> shuttingDown (px ex_found)" "ctx_err (px ex_found) = None"
  "Len (pstore (px ex_found)) = 0" "opts (px ex_found) = default_options ex_popts" "adm ex_found = Free"
  "lst ex_found = LIdle" "suph ex_found = (\<lambda>_. SuPoll False)" "queues (px ex_found) = []"
  "backendReady (px ex_found) = False"
  using New_cases [of ex_popts] ex_accepts ex_proxy_New
  by (auto simp: ex_gen_def ex_found_def ex_sys_def Serve_begin_def Let_def startServer_def Len_def gm_len_def
      default_options_eq ex_popts_def time_Before_def time_zero_def unix_epoch_def second_def)

lemma ex_opening: "\<exists>s. reach sys_init sys_step s \<and> px s = (px ex_found)\<lparr>backendRunning := True\<rparr> \<and> adm s = Free \<and> lst s = LIdle \<and> suph s ex_gen = SuOpen"
proof -
  define s1 where "s1 = u_status ex_gen False (Inr StateRunning) ex_found"
  define s2 where "s2 = s1\<lparr>suph := (suph s1)(ex_gen := SuSettle)\<rparr>"
  define s3 where "s3 = s2\<lparr>suph := (suph s2)(ex_gen := SuProbe)\<rparr>"
  define s4 where "s4 = s3\<lparr>suph := (suph s3)(ex_gen := SuOpen)\<rparr>"
  have "reach sys_init sys_step ex_found" by (rule reach_init [of sys_init, OF ex_found_init])
  moreover have "sys_step ex_found (Startup_thread ex_gen) s1"
    unfolding s1_def by (rule step_status) (simp_all add: ex_found_fields)
  moreover have "sys_step s1 (Startup_thread ex_gen) s2"
    unfolding s2_def by (rule step_local [where r = None]) (simp_all add: s1_def u_status_def ex_found_fields)
  moreover have "sys_step s2 (Startup_thread ex_gen) s3"
    unfolding s3_def by (rule step_local [where r = None]) (simp_all add: s2_def s1_def u_status_def ex_found_fields)
  moreover have "sys_step s3 (Startup_thread ex_gen) s4"
    unfolding s4_def by (rule step_local [where r = None]) (simp_all add: s3_def s2_def s1_def u_status_def ex_found_fields)
  ultimately have "reach sys_init sys_step s4" by (meson reach_step)
  moreover have "px s4 = (px ex_found)\<lparr>backendRunning := True\<rparr>" "adm s4 = Free" "lst s4 = LIdle" "suph s4 ex_gen = SuOpen"
    by (simp_all add: s4_def s3_def s2_def s1_def u_status_def ex_found_fields)
  ultimately show ?thesis by blast
qed

lemma ex_stopping: "\<exists>s u. reach sys_init sys_step s \<and> adm s = HStop u"
proof -
  obtain s where s: "reach sys_init sys_step s" "px s = (px ex_found)\<lparr>backendRunning := True\<rparr>" "adm s = Free"
    "lst s = LIdle" "suph s ex_gen = SuOpen" using ex_opening by blast
  define a where "a = u_open ex_gen (\<lambda>_ _. 0) (\<lambda>_ _. None) s"
  have step_a: "sys_step s (Startup_thread ex_gen) a"
    unfolding a_def using s by (intro step_open) (simp_all add: ex_found_fields rlocked_simps)
  have a: "adm a = HGate ex_gen" "lst a = LIdle" "\<not> shuttingDown (px a)" "backendReady (px a)" "Len (pstore (px a)) = 0"
    using s by (simp_all add: a_def u_open_def openStartupGate_locked_def Let_def ex_found_fields)
  define b where "b = u_gate ex_gen a"
  have step_b: "sys_step a (Startup_thread ex_gen) b" unfolding b_def by (rule step_opened [OF a(1)])
  define t where "t = last (armed (px b))"
  have b: "t \<in> set (armed (px b))" "timer_generation t = stopGeneration (px b)" "backendReady (px b)"
    "Len (pstore (px b)) = 0" "adm b = Free"
    using a by (simp_all add: t_def b_def u_gate_def scheduleAutoStop_def scheduleAutoStopAttemptLocked_def Let_def)
  define c where "c = t_fire t b"
  have step_c: "sys_step b (Timer_thread t) c" unfolding c_def by (rule step_fire [OF b(1)])
  have "sys_step c (Timer_thread t) (t_lock t c)"
    by (rule step_tlock) (simp_all add: c_def t_fire_def b)
  then have "reach sys_init sys_step (t_lock t c)"
    using s(1) step_a step_b step_c by (meson reach_step)
  moreover have "adm (t_lock t c) = HStop t"
    using b by (simp add: t_lock_def c_def t_fire_def autoStopAllowed_def)
  ultimately show ?thesis by blast
qed

text \<open>
  C1: The server is never told to stop under a player: in every reachable state of every
  interleaving, from the moment a stop request is sent until its result has been dealt with
  no session is stored and the listener cannot admit one; and a request is sent only while
  the gate is open, for the current auto-stop generation, and not after shutdown began.
\<close>

theorem stop_only_without_sessions:
  assumes "reach sys_init sys_step s"
  shows "(\<forall>u. adm s = HStop u \<or> adm s = HStopped u \<longrightarrow>
            (\<forall>key. Get key (pstore (px s)) = None) \<and> \<not> phase_locked (lst s))
       \<and> (\<forall>th t u. sys_step s th t \<and> adm t = HStop u \<and> adm s \<noteq> HStop u \<longrightarrow>
            Len (pstore (px s)) = 0 \<and> backendReady (px s) \<and> timer_generation u = stopGeneration (px s)
            \<and> \<not> shuttingDown (px s))"
proof -
  note inv = sys_invD [OF assms]
  have empty: "Get key (pstore (px s)) = None" if "Len (pstore (px s)) = 0" for key
    using that st.len_zero [OF proxy_invD(2) [OF inv(7)]] by blast
  have "\<not> shuttingDown (px s)" if "backendReady (px s)"
    using proxy_invD(6) [OF inv(7)] that by (auto simp: gate_inv_def)
  then show ?thesis using inv(2) empty stop_begins
    unfolding lock_inv_def autoStopAllowed_def by fastforce
qed

theorem stop_only_without_sessions_witness:
  "\<exists>s u. reach sys_init sys_step s \<and> adm s = HStop u
     \<and> (\<forall>key. Get key (pstore (px s)) = None) \<and> \<not> phase_locked (lst s)"
proof -
  obtain s u where "reach sys_init sys_step s" "adm s = HStop u" using ex_stopping by blast
  then show ?thesis using stop_only_without_sessions [of s] by blast
qed



text \<open>
  C2: Datagrams are delivered in order, at most once and only to their own client's session:
  in every reachable state what a session has sent to the backend, followed by what is
  buffered for it, is a subsequence of the datagrams the listener has read from that
  session's client, in the order they came; and a stored session belongs to the address it
  is stored under.
\<close>

theorem delivery_in_order:
  assumes "reach sys_init sys_step s"
  shows "subseq (upstream_sent (sess_heap (px s) v)
              @ (case map_of (queues (px s)) v of None \<Rightarrow> [] | Some q \<Rightarrow> packets q))
            (map snd (filter (\<lambda>e. fst e = clientAddr (sess_heap (px s) v)) (recv s)))
       \<and> (\<forall>key. Get key (pstore (px s)) = Some v \<longrightarrow> clientAddr (sess_heap (px s) v) = key)"
proof -
  note inv = sys_invD(4) [OF assms]
  have "subseq (handled s) (recv s)"
  proof (cases "phase_packet (lst s)")
    case (Some e)
    then obtain log where "recv s = log @ [e]" using inv by (auto simp: delivery_inv_def)
    then show ?thesis using Some by (simp add: handled_def prefix_imp_subseq)
  qed (simp add: handled_def)
  then have "subseq (from_client key (handled s)) (from_client key (recv s))" for key
    unfolding from_client_def by (intro subseq_map subseq_filter)
  moreover have "subseq (handed (px s) v) (from_client (clientAddr (sess_heap (px s) v)) (handled s))"
    using inv by (simp add: delivery_inv_def)
  ultimately have "subseq (handed (px s) v) (from_client (clientAddr (sess_heap (px s) v)) (recv s))"
    using subseq_order.order_trans by blast
  then show ?thesis using Get_client [OF inv] by (simp add: handed_def from_client_def)
qed

theorem delivery_in_order_witness:
  "subseq (upstream_sent (sess_heap (px ex_awake) 0)) (map snd (filter (\<lambda>e. fst e = clientAddr (sess_heap (px ex_awake) 0)) [(''a'', [9])]))"
proof -
  have "recv ex_awake = [(''a'', [9])]" by (simp add: ex_awake_def ex_sys_def)
  then show ?thesis using delivery_in_order [OF ex_awake_reach, of 0] by (auto dest: list_emb_appendD intro: subseq_order.order_trans)
qed

text \<open>
  C4: Memory and counters stay within bounds in every reachable state: each session buffers
  at most the configured number of packets and bytes, the byte counters equal what is
  buffered and their sum is within the global limit, the store is within its capacity, the
  queues are empty while the gate is open, and the timer wait group counts exactly the
  armed timers and the callbacks that have not finished, so it never becomes negative.
\<close>

theorem buffers_bounded:
  assumes "reach sys_init sys_step s"
  shows "(\<forall>v q. map_of (queues (px s)) v = Some q \<longrightarrow>
            int (length (packets q)) \<le> StartupBufferPackets (opts (px s))
            \<and> qbytes q = (\<Sum>d\<leftarrow>packets q. int (length d))
            \<and> qbytes q \<le> StartupBufferBytesPerSession (opts (px s)))
       \<and> queuedBytes (px s) = (\<Sum>e\<leftarrow>queues (px s). qbytes (snd e))
       \<and> 0 \<le> queuedBytes (px s) \<and> queuedBytes (px s) \<le> StartupBufferBytesGlobal (opts (px s))
       \<and> Len (pstore (px s)) \<le> store_max (pstore (px s))
       \<and> (backendReady (px s) \<longrightarrow> queues (px s) = [])
       \<and> timerWG (px s) = int (length (armed (px s))) + callbacks s \<and> 0 \<le> timerWG (px s)"
proof -
  note inv = proxy_invD [OF sys_invD(7) [OF assms]]
  have q: "queue_ok (opts (px s)) q" if "map_of (queues (px s)) v = Some q" for v q
    using inv(3) that by (auto simp: queue_inv_def dest!: map_of_SomeD)
  have "0 \<le> total_bytes (queues (px s))"
    using inv(3) by (intro total_bytes_nonneg [of _ "opts (px s)"]) (simp add: queue_inv_def)
  moreover have "0 \<le> callbacks s" by (simp add: callbacks_def split: holder.split)
  moreover have "\<forall>v q. map_of (queues (px s)) v = Some q \<longrightarrow>
      int (length (packets q)) \<le> StartupBufferPackets (opts (px s))
      \<and> qbytes q = (\<Sum>d\<leftarrow>packets q. int (length d)) \<and> qbytes q \<le> StartupBufferBytesPerSession (opts (px s))"
    using q unfolding queue_ok_def queue_bytes_def by blast
  moreover have "queuedBytes (px s) = total_bytes (queues (px s))" "queuedBytes (px s) \<le> StartupBufferBytesGlobal (opts (px s))"
    "backendReady (px s) \<longrightarrow> queues (px s) = []"
    using inv(3) by (auto simp: queue_inv_def)
  moreover have "Len (pstore (px s)) \<le> store_max (pstore (px s))"
    using inv(7) by (simp add: store_inv_def Len_def)
  moreover have "timerWG (px s) = int (length (armed (px s))) + callbacks s"
    using inv(5) by (simp add: timer_inv_def)
  ultimately show ?thesis unfolding total_bytes_def by (intro conjI) (assumption | simp)+
qed

theorem buffers_bounded_witness:
  "0 \<le> queuedBytes (px ex_awake) \<and> Len (pstore (px ex_awake)) \<le> store_max (pstore (px ex_awake))"
  using buffers_bounded [OF ex_awake_reach] by blast

text \<open>
  C6: Nothing leaks: in every reachable state a session that is not stored is closed, every
  stored session has its watcher (or is being given it by the listener), and every queue
  belongs to a session whose watcher has yet to run the removal of that queue.
\<close>

theorem no_leaked_session_or_queue:
  assumes "reach sys_init sys_step s"
  shows "(\<forall>v < next_sid (px s). (\<exists>key. Get key (pstore (px s)) = Some v) \<or> closed (sess_heap (px s) v))
       \<and> (\<forall>key v. Get key (pstore (px s)) = Some v \<longrightarrow>
            (key, v) \<in> set (watchers (px s)) \<or> phase_new (lst s) = Some (key, v))
       \<and> (\<forall>v. map_of (queues (px s)) v \<noteq> None \<longrightarrow>
            (\<exists>key. (key, v) \<in> set (watchers (px s))) \<or> (\<exists>b. (v, b) \<in> set (wq s)))"
proof -
  note inv = sys_invD(5) [OF assms]
  have wf: "distinct (map fst (sessions (pstore (px s))))"
    using proxy_invD(7) [OF sys_invD(7) [OF assms]] by (simp add: store_inv_def gm_wf_def)
  have "(\<exists>key. Get key (pstore (px s)) = Some v) \<longleftrightarrow> v \<in> snd ` set (sessions (pstore (px s)))" for v
    using wf by (force simp: Get_def image_iff map_of_eq_Some_iff)
  moreover have "(key, v) \<in> set (sessions (pstore (px s)))" if "Get key (pstore (px s)) = Some v" for key v
    using that by (simp add: Get_def map_of_SomeD)
  moreover have "(\<exists>key. (key, v) \<in> set (watchers (px s))) \<or> (\<exists>b. (v, b) \<in> set (wq s))"
    if "map_of (queues (px s)) v \<noteq> None" for v
    using inv that unfolding watch_inv_def keys_map_of [symmetric] by force
  ultimately show ?thesis using inv unfolding watch_inv_def by blast
qed

theorem no_leaked_session_or_queue_witness:
  "\<not> (\<exists>key v. Get key (pstore (px ex_awake)) = Some v \<and> (key, v) \<notin> set (watchers (px ex_awake))
        \<and> phase_new (lst ex_awake) \<noteq> Some (key, v))"
  using no_leaked_session_or_queue [OF ex_awake_reach] by blast








end
