(* ===== verification/ProxyProgress.thy ===== *)
theory ProxyProgress
  imports ProxyRefine
begin

text \<open>
  Progress of the interleaved goroutines: the locks cannot deadlock. Whoever holds
  \<open>admissionMu\<close> can always take its next step, and so can the listener once no writer holds
  \<open>forwardingMu\<close>; a measure on the listener's phases bounds the steps to the end of a datagram.
\<close>

section \<open>The steps that remain\<close>











section \<open>No deadlock\<close>





end
