(* ===== verification/ProxyServe.thy ===== *)
theory ProxyServe
  imports ProxyProps
begin





text \<open>
  \<open>runSweeper\<close>: one sweep per tick of its ticker, until the context ends. A tick carries the
  clock readings of the sweep.
\<close>

fun runSweeper :: "((sid \<Rightarrow> time) \<times> time) list \<Rightarrow> proxy \<Rightarrow> proxy" where
  "runSweeper [] p = p"
| "runSweeper ((tm, now) # ticks) p = runSweeper ticks (expireIdleSessions tm now p)"

section \<open>How the loop ends\<close>




lemma runSweeper_inv: "proxy_inv k p \<Longrightarrow> proxy_inv k (runSweeper ticks p)"
  by (induction ticks p rule: runSweeper.induct) (simp_all add: proxy_inv_expireIdleSessions)



section \<open>Property\<close>



end
