(* ===== verification/Health.thy ===== *)
theory Health
  imports Pterodactyl
begin

text \<open>
  The health endpoint: pkg/proxy/health.go (the state and the handler) and
  cmd/healthcheck.go (the command that asks it). The handler is a Go multiplexer with two
  patterns, modelled on the cleaned path of a request: \<open>GET\<close> patterns also serve \<open>HEAD\<close>, a
  known path with another method is answered by 405, an unknown path by 404.
\<close>

section \<open>State and handler\<close>

record HealthState =
  health_ready :: bool

definition SetReady :: "bool \<Rightarrow> HealthState \<Rightarrow> HealthState" where
  "SetReady b state = state\<lparr>health_ready := b\<rparr>"

definition Ready :: "HealthState \<Rightarrow> bool" where
  "Ready state = health_ready state"

definition text_answer :: "int \<Rightarrow> string \<Rightarrow> http_response" where
  "text_answer code body = \<lparr>StatusCode = code, Body = body, Body_err = None\<rparr>"

definition newline :: string where "newline = [CHR 0x0A]"

definition healthz :: "HealthState \<Rightarrow> http_response" where
  "healthz state = text_answer 200 (''ok'' @ newline)"

definition readyz :: "HealthState \<Rightarrow> http_response" where
  "readyz state =
     (if Ready state then text_answer 200 (''ready'' @ newline)
      else text_answer 503 (''not ready'' @ newline))"

text \<open>The routing; a \<open>HEAD\<close> request is answered without the body.\<close>

definition route :: "string \<Rightarrow> (HealthState \<Rightarrow> http_response) option" where
  "route path = (if path = ''/healthz'' then Some healthz else if path = ''/readyz'' then Some readyz else None)"

definition NewHealthHandler :: "HealthState \<Rightarrow> string \<Rightarrow> string \<Rightarrow> http_response" where
  "NewHealthHandler state method path =
     (case route path of
        None \<Rightarrow> text_answer 404 (''404 page not found'' @ newline)
      | Some h \<Rightarrow>
          if method = ''GET'' then h state
          else if method = ''HEAD'' then (h state)\<lparr>Body := []\<rparr>
          else text_answer 405 (''Method Not Allowed'' @ newline))"

section \<open>The health check command\<close>

text \<open>
  \<open>http_Do\<close> is one exchange; \<open>redirects\<close> tells whether an answer is one the client would follow
  (a 3xx status with a location), which its \<open>CheckRedirect\<close> turns into an error. The result
  lists the requests that were sent.
\<close>

definition checkHealth ::
    "netlib \<Rightarrow> (http_response \<Rightarrow> bool) \<Rightarrow> string \<Rightarrow> http_request list \<times> goerror option" where
  "checkHealth lib redirects address =
     (case url_Parse lib address of
        Inl e \<Rightarrow> ([], Some (Wrap ''parse health endpoint'' e))
      | Inr endpoint \<Rightarrow>
          let host = Hostname endpoint
          in if Scheme endpoint \<noteq> ''http'' \<or> has_User endpoint \<or> host = []
                \<or> (host \<noteq> ''localhost'' \<and> \<not> loopback_ip (ParseIP lib host)) then
               ([], Some (ErrText ''health endpoint must be an HTTP loopback URL''))
             else case http_NewRequest lib ''GET'' (url_text endpoint) of
               Some e \<Rightarrow> ([], Some (Wrap ''create health request'' e))
             | None \<Rightarrow>
                 let request = \<lparr>rq_method = ''GET'', rq_url = url_text endpoint, rq_headers = [], rq_body = None\<rparr>
                 in ([request],
                     case http_Do lib request of
                       Inl e \<Rightarrow> Some (Wrap ''request health endpoint'' e)
                     | Inr response \<Rightarrow>
                         if redirects response then
                           Some (Wrap ''request health endpoint'' (ErrText ''health endpoint redirects are not allowed''))
                         else if StatusCode response < 200 \<or> StatusCode response \<ge> 300 then
                           Some (ErrText ''health endpoint returned'')
                         else None))"

text \<open>The endpoint an address names is on this machine.\<close>

definition loopback_url :: "netlib \<Rightarrow> url \<Rightarrow> bool" where
  "loopback_url lib u \<longleftrightarrow> Scheme u = ''http'' \<and> \<not> has_User u \<and> Hostname u \<noteq> []
     \<and> (Hostname u = ''localhost'' \<or> loopback_ip (ParseIP lib (Hostname u)))"

section \<open>Properties\<close>

text \<open>
  C40: The health check asks only this machine. It sends at most one request, a bare \<open>GET\<close>,
  and only to an HTTP URL without user info whose host is \<open>localhost\<close> or a loopback address;
  it reports success exactly when such a request was answered by a 2xx status without a
  redirect.
\<close>

theorem checkHealth_loopback_only:
  "(\<forall>rq \<in> set (fst (checkHealth lib redirects address)).
      \<exists>u. url_Parse lib address = Inr u \<and> loopback_url lib u
        \<and> rq = \<lparr>rq_method = ''GET'', rq_url = url_text u, rq_headers = [], rq_body = None\<rparr>)
   \<and> length (fst (checkHealth lib redirects address)) \<le> 1
   \<and> (snd (checkHealth lib redirects address) = None \<longleftrightarrow>
        (\<exists>rq resp. fst (checkHealth lib redirects address) = [rq] \<and> http_Do lib rq = Inr resp
           \<and> \<not> redirects resp \<and> 200 \<le> StatusCode resp \<and> StatusCode resp < 300))"
proof (cases "url_Parse lib address")
  case (Inl e)
  then show ?thesis by (simp add: checkHealth_def)
next
  case (Inr u)
  then show ?thesis
    by (cases "loopback_url lib u"; cases "http_NewRequest lib ''GET'' (url_text u)")
      (auto simp: checkHealth_def loopback_url_def Let_def not_less split: sum.split)
qed

definition ex_local :: netlib where
  "ex_local = (ex_lib (Inr (text_answer 200 (''ok'' @ newline))))
     \<lparr>url_Parse := \<lambda>_. Inr (ex_url\<lparr>Scheme := ''http'', Hostname := ''localhost''\<rparr>)\<rparr>"

theorem checkHealth_loopback_only_witness:
  "length (fst (checkHealth ex_local (\<lambda>_. False) ''http://localhost:8080/healthz'')) \<le> 1
   \<and> snd (checkHealth ex_local (\<lambda>_. False) ''http://localhost:8080/healthz'') = None"
proof -
  let ?r = "checkHealth ex_local (\<lambda>_. False) ''http://localhost:8080/healthz''"
  have "\<exists>rq resp. fst ?r = [rq] \<and> http_Do ex_local rq = Inr resp \<and> 200 \<le> StatusCode resp \<and> StatusCode resp < 300"
    by (simp add: checkHealth_def ex_local_def ex_lib_def ex_url_def text_answer_def Let_def)
  then show ?thesis
    using checkHealth_loopback_only [of ex_local "\<lambda>_. False" "''http://localhost:8080/healthz''"] by blast
qed

end
