(* ===== verification/GoDuration.thy ===== *)
theory GoDuration
  imports GoStrings Complex_Main
begin

text \<open>
  Durations as text: \<open>time.ParseDuration\<close>, which reads the duration variables of the
  environment, and \<open>Duration.String\<close>, which \<open>fmt\<close> uses to print them. The fractional part
  is computed by the library in \<open>float64\<close>; \<open>float64\<close> below is the rounding of an exact
  positive result to 53 significant bits, ties to even. (No value here comes near the
  subnormal or the infinite range.)
\<close>

declare digit_value.simps [simp del]

section \<open>Rounding to float64\<close>

fun bit_count :: "nat \<Rightarrow> nat" where
  "bit_count n = (if n = 0 then 0 else Suc (bit_count (n div 2)))"

declare bit_count.simps [simp del]

definition pow2 :: "int \<Rightarrow> rat" where
  "pow2 e = (if 0 \<le> e then 2 ^ nat e else 1 / 2 ^ nat (- e))"

definition round_even :: "rat \<Rightarrow> int" where
  "round_even q =
     (let n = \<lfloor>q\<rfloor>; r = q - of_int n
      in if r < 1 / 2 then n else if 1 / 2 < r then n + 1 else if even n then n else n + 1)"

definition float64 :: "rat \<Rightarrow> rat" where
  "float64 q =
     (if q \<le> 0 then 0
      else case quotient_of q of (a, b) \<Rightarrow>
        let e = int (bit_count (nat a)) - int (bit_count (nat b));
            k = (if pow2 e \<le> q then e else e - 1);
            ulp = pow2 (k - 52)
        in of_int (round_even (q / ulp)) * ulp)"

section \<open>ParseDuration\<close>

text \<open>
  The counters are \<open>uint64\<close> in the library. The tests keep them at most \<open>2 ^ 63\<close>, so only the
  sum of two terms can wrap, and there it is written out.
\<close>

fun leadingInt :: "nat \<Rightarrow> string \<Rightarrow> goerror + nat \<times> string" where
  "leadingInt x [] = Inr (x, [])"
| "leadingInt x (c # s) =
     (case digit_value c of
        None \<Rightarrow> Inr (x, c # s)
      | Some d \<Rightarrow>
          if x > 2 ^ 63 div 10 then Inl (ErrText ''time: bad [0-9]*'')
          else let y = x * 10 + d
               in if y > 2 ^ 63 then Inl (ErrText ''time: bad [0-9]*'') else leadingInt y s)"

fun leadingFraction :: "nat \<Rightarrow> nat \<Rightarrow> bool \<Rightarrow> string \<Rightarrow> nat \<times> nat \<times> string" where
  "leadingFraction x scale overflow [] = (x, scale, [])"
| "leadingFraction x scale overflow (c # s) =
     (case digit_value c of
        None \<Rightarrow> (x, scale, c # s)
      | Some d \<Rightarrow>
          if overflow then leadingFraction x scale True s
          else if x > (2 ^ 63 - 1) div 10 then leadingFraction x scale True s
          else let y = x * 10 + d
               in if y > 2 ^ 63 then leadingFraction x scale True s
                  else leadingFraction y (scale * 10) False s)"

definition unit_char :: "char \<Rightarrow> bool" where
  "unit_char c \<longleftrightarrow> c \<noteq> CHR ''.'' \<and> digit_value c = None"

definition unitMap :: "string \<Rightarrow> nat option" where
  "unitMap u =
     (if u = ''ns'' then Some 1
      else if u = ''us'' \<or> u = [CHR 0xC2, CHR 0xB5, CHR ''s''] \<or> u = [CHR 0xCE, CHR 0xBC, CHR ''s''] then Some 1000
      else if u = ''ms'' then Some 1000000
      else if u = ''s'' then Some 1000000000
      else if u = ''m'' then Some 60000000000
      else if u = ''h'' then Some 3600000000000
      else None)"

definition fraction_part :: "nat \<Rightarrow> nat \<Rightarrow> nat \<Rightarrow> nat" where
  "fraction_part f scale unit =
     nat \<lfloor>float64 (float64 (of_nat f) * float64 (of_nat unit / of_nat scale))\<rfloor>"

text \<open>One term, a number with its unit: what it adds and the text left.\<close>

definition invalid_duration :: goerror where
  "invalid_duration = ErrText ''time: invalid duration''"

definition duration_term :: "string \<Rightarrow> goerror + nat \<times> string" where
  "duration_term s =
     (if s = [] \<or> unit_char (hd s) then Inl invalid_duration
      else case leadingInt 0 s of
        Inl e \<Rightarrow> Inl invalid_duration
      | Inr (v, s1) \<Rightarrow>
          let pre = (length s \<noteq> length s1);
              dot = (s1 \<noteq> [] \<and> hd s1 = CHR ''.'');
              (f, scale, s2) = (if dot then leadingFraction 0 1 False (tl s1) else (0, 1, s1));
              post = (dot \<and> length (tl s1) \<noteq> length s2);
              u = takeWhile unit_char s2;
              s3 = dropWhile unit_char s2
          in if \<not> pre \<and> \<not> post then Inl invalid_duration
             else if u = [] then Inl (ErrText ''time: missing unit in duration'')
             else case unitMap u of
                    None \<Rightarrow> Inl (ErrText ''time: unknown unit in duration'')
                  | Some unit \<Rightarrow>
                      if v > 2 ^ 63 div unit then Inl invalid_duration
                      else let w = v * unit + (if f > 0 then fraction_part f scale unit else 0)
                           in if f > 0 \<and> w > 2 ^ 63 then Inl invalid_duration else Inr (w, s3))"

lemma leadingInt_shorter: "leadingInt x s = Inr (v, t) \<Longrightarrow> length t \<le> length s"
  by (induction x s rule: leadingInt.induct)
    (auto simp: Let_def le_SucI split: option.splits if_splits)

lemma leadingFraction_shorter: "leadingFraction x sc ov s = (f, sc', t) \<Longrightarrow> length t \<le> length s"
  by (induction x sc ov s rule: leadingFraction.induct)
    (auto simp: Let_def le_SucI split: option.splits if_splits)

lemma duration_term_shorter: "duration_term s = Inr (w, t) \<Longrightarrow> length t < length s"
proof -
  assume *: "duration_term s = Inr (w, t)"
  then obtain v s1 where 1: "leadingInt 0 s = Inr (v, s1)"
    by (auto simp: duration_term_def split: sum.splits if_splits)
  define r where "r = (if s1 \<noteq> [] \<and> hd s1 = CHR ''.'' then leadingFraction 0 1 False (tl s1) else (0, 1, s1))"
  obtain f sc s2 where 2: "r = (f, sc, s2)" by (cases r) auto
  have "takeWhile unit_char s2 \<noteq> []" "t = dropWhile unit_char s2"
    using * 1 2 unfolding duration_term_def r_def
    by (auto simp: Let_def split: option.splits if_splits)
  then have "length t < length s2"
    by (metis length_append length_greater_0_conv less_add_same_cancel2 takeWhile_dropWhile_id)
  moreover have "length s2 \<le> length s1"
    using 2 leadingFraction_shorter [of 0 1 False "tl s1" f sc s2] by (auto simp: r_def split: if_splits)
  ultimately show ?thesis using leadingInt_shorter [OF 1] by linarith
qed

function duration_sum :: "nat \<Rightarrow> string \<Rightarrow> goerror + nat" where
  "duration_sum d s =
     (if s = [] then Inr d
      else case duration_term s of
        Inl e \<Rightarrow> Inl e
      | Inr (v, rest) \<Rightarrow>
          let d1 = (d + v) mod 2 ^ 64
          in if d1 > 2 ^ 63 then Inl invalid_duration else duration_sum d1 rest)"
  by pat_completeness auto
termination
  by (relation "measure (\<lambda>(d, s). length s)") (auto dest: duration_term_shorter)

declare duration_sum.simps [simp del]

definition ParseDuration :: "string \<Rightarrow> goerror + duration" where
  "ParseDuration text =
     (let neg = (text \<noteq> [] \<and> hd text = CHR ''-'');
          s = (if text \<noteq> [] \<and> (hd text = CHR ''-'' \<or> hd text = CHR ''+'') then tl text else text)
      in if s = ''0'' then Inr 0
         else if s = [] then Inl invalid_duration
         else case duration_sum 0 s of
                Inl e \<Rightarrow> Inl e
              | Inr d \<Rightarrow>
                  if neg then Inr (- int d)
                  else if d > 2 ^ 63 - 1 then Inl invalid_duration else Inr (int d))"

lemma duration_sum_bound: "duration_sum d s = Inr r \<Longrightarrow> d \<le> 2 ^ 63 \<Longrightarrow> r \<le> 2 ^ 63"
proof (induction d s rule: duration_sum.induct)
  case (1 d s)
  then show ?case
    by (subst (asm) (2) duration_sum.simps) (auto simp: Let_def split: if_splits sum.splits)
qed

text \<open>Whatever is read fits a \<open>Duration\<close>.\<close>

lemma ParseDuration_range: "ParseDuration s = Inr d \<Longrightarrow> min_int64 \<le> d \<and> d \<le> max_int64"
  by (auto simp: ParseDuration_def Let_def min_int64_def max_int64_def split: if_splits sum.splits
      dest!: duration_sum_bound)

section \<open>Duration.String\<close>

text \<open>
  The library fills a buffer from its end; here the text built so far is the argument
  \<open>buf\<close>. \<open>fmtFrac\<close> prints the fraction of \<open>v / 10 ^ n\<close> without trailing zeros.
\<close>

fun fmtFrac :: "nat \<Rightarrow> bool \<Rightarrow> nat \<Rightarrow> string \<Rightarrow> string \<times> nat" where
  "fmtFrac 0 pr v buf = (if pr then CHR ''.'' # buf else buf, v)"
| "fmtFrac (Suc n) pr v buf =
     (let d = v mod 10; pr1 = (pr \<or> d \<noteq> 0)
      in fmtFrac n pr1 (v div 10) (if pr1 then digit_char d # buf else buf))"

definition Duration_text :: "nat \<Rightarrow> string" where
  "Duration_text u =
     (if u = 0 then ''0s''
      else if u < 1000000000 then
        (let (n, unit) = (if u < 1000 then (0, ''ns'')
                          else if u < 1000000 then (3, [CHR 0xC2, CHR 0xB5, CHR ''s''])
                          else (6, ''ms''));
             (buf, v) = fmtFrac n False u unit
         in print_nat v @ buf)
      else
        (let (buf, v) = fmtFrac 9 False u ''s'';
             seconds = print_nat (v mod 60) @ buf;
             minutes = v div 60
         in if minutes = 0 then seconds
            else let m = print_nat (minutes mod 60) @ CHR ''m'' # seconds; hours = minutes div 60
                 in if hours = 0 then m else print_nat hours @ CHR ''h'' # m))"

definition Duration_String :: "duration \<Rightarrow> string" where
  "Duration_String d = (if d < 0 then CHR ''-'' # Duration_text (nat (- d)) else Duration_text (nat d))"

section \<open>What is printed is read back\<close>

lemma bit_count_1 [simp]: "bit_count (Suc 0) = 1"
  by (subst bit_count.simps) (simp add: bit_count.simps [of 0])

lemma bit_count_bounds: "0 < n \<Longrightarrow> 2 ^ (bit_count n - 1) \<le> n \<and> n < 2 ^ bit_count n \<and> 0 < bit_count n"
proof (induction n rule: bit_count.induct)
  case (1 n)
  show ?case
  proof (cases "n div 2 = 0")
    case True
    then have "n = 1" using 1(2) by simp
    then show ?thesis by simp
  next
    case False
    then have IH: "2 ^ (bit_count (n div 2) - 1) \<le> n div 2" "n div 2 < 2 ^ bit_count (n div 2)"
      "0 < bit_count (n div 2)" using 1 by auto
    have "bit_count n = Suc (bit_count (n div 2))" using 1(2) by (simp add: bit_count.simps [of n])
    moreover have "(2::nat) ^ bit_count (n div 2) = 2 * 2 ^ (bit_count (n div 2) - 1)"
      using IH(3) by (cases "bit_count (n div 2)") auto
    moreover define p :: nat where "p = 2 ^ (bit_count (n div 2) - 1)"
    ultimately have "(2::nat) ^ bit_count (n div 2) = 2 * p" "(2::nat) ^ bit_count n = 4 * p"
      "(2::nat) ^ (bit_count n - 1) = 2 * p" "p \<le> n div 2" "n div 2 < 2 * p" "0 < bit_count n"
      using IH by simp_all
    then show ?thesis by presburger
  qed
qed

lemma round_even_int [simp]: "round_even (of_int n) = n"
  by (simp add: round_even_def)

text \<open>Integers below \<open>2 ^ 53\<close> are represented exactly.\<close>

lemma float64_nat: "n < 2 ^ 53 \<Longrightarrow> float64 (of_nat n) = of_nat n"
proof (cases "n = 0")
  case True
  then show ?thesis by (simp add: float64_def)
next
  case False
  assume small: "n < 2 ^ 53"
  note b = bit_count_bounds [of n]
  let ?e = "int (bit_count n) - 1"
  have q: "quotient_of (of_nat n) = (int n, 1)"
    using quotient_of_int [of "int n"] by simp
  have le: "pow2 ?e \<le> of_nat n"
  proof -
    have "pow2 ?e = of_nat (2 ^ (bit_count n - 1))" using b False by (simp add: pow2_def nat_diff_distrib)
    then show ?thesis using b False by (simp only: of_nat_le_iff)
  qed
  have "bit_count n - 1 < 53"
    using b False small by (meson le_less_trans neq0_conv one_less_numeral_iff power_less_imp_less_exp semiring_norm(76))
  then have ulp: "pow2 (int (bit_count n) - 53) = 1 / 2 ^ (53 - bit_count n)"
    using b False by (auto simp: pow2_def nat_diff_distrib)
  have "of_nat n / pow2 (int (bit_count n) - 53) = of_int (int n * 2 ^ (53 - bit_count n))" by (simp add: ulp)
  then show ?thesis
    using False le by (simp add: float64_def q Let_def ulp del: of_int_mult) simp
qed

lemma fraction_exact:
  assumes "k \<le> n" "n \<le> 9" "0 < f" "f < 10 ^ k"
  shows "fraction_part f (10 ^ k) (10 ^ n) = f * 10 ^ (n - k)"
proof -
  have "f * 10 ^ (n - k) < 10 ^ k * 10 ^ (n - k)" using assms by simp
  also have "\<dots> = 10 ^ n" using assms by (simp flip: power_add)
  also have "(10::nat) ^ n \<le> 10 ^ 9" using assms by (intro power_increasing) auto
  finally have p: "f * 10 ^ (n - k) < 2 ^ 53" by simp
  have "f \<le> f * 10 ^ (n - k)" by simp
  then have f: "f < 2 ^ 53" using p by linarith
  have "10 ^ (n - k) \<le> f * 10 ^ (n - k)" using assms by simp
  then have t: "(10::nat) ^ (n - k) < 2 ^ 53" using p by linarith
  have "(of_nat (10 ^ n) / of_nat (10 ^ k) :: rat) = of_nat (10 ^ (n - k))"
    using power_diff [of "10 :: rat" k n] assms(1) by simp
  then have "float64 (of_nat (10 ^ n) / of_nat (10 ^ k)) = of_nat (10 ^ (n - k))"
    using float64_nat [OF t] by simp
  then have "fraction_part f (10 ^ k) (10 ^ n) = nat \<lfloor>float64 (of_nat f * of_nat (10 ^ (n - k)))\<rfloor>"
    by (simp only: fraction_part_def float64_nat [OF f])
  also have "\<dots> = f * 10 ^ (n - k)"
    by (simp only: of_nat_mult [symmetric] float64_nat [OF p] floor_of_nat nat_int)
  finally show ?thesis .
qed

text \<open>Reading digits up to a character that is none.\<close>

definition stops :: "string \<Rightarrow> bool" where
  "stops t \<longleftrightarrow> t = [] \<or> digit_value (hd t) = None"

lemma digits_value_mono: "digits_value acc s = Some n \<Longrightarrow> acc * 10 ^ length s \<le> n"
proof (induction s arbitrary: acc)
  case (Cons c s)
  then obtain d where d: "digit_value c = Some d" "digits_value (10 * acc + d) s = Some n"
    by (auto split: option.splits)
  have "acc * 10 ^ length (c # s) \<le> (10 * acc + d) * 10 ^ length s" by (simp add: algebra_simps)
  then show ?case using Cons.IH [OF d(2)] by linarith
qed simp

lemma digits_value_less: "digits_value acc s = Some n \<Longrightarrow> n < (acc + 1) * 10 ^ length s"
proof (induction s arbitrary: acc)
  case (Cons c s)
  then obtain d where d: "digit_value c = Some d" "digits_value (10 * acc + d) s = Some n"
    by (auto split: option.splits)
  then have "d < 10" by (auto simp: digit_value.simps Let_def split: if_splits)
  then have "(10 * acc + d + 1) * 10 ^ length s \<le> ((acc + 1) * 10) * 10 ^ length s" by (intro mult_right_mono) auto
  then have "n < ((acc + 1) * 10) * 10 ^ length s" using Cons.IH [OF d(2)] by linarith
  then show ?case by (simp only: list.size(4) add_Suc_right add_0_right power_Suc mult.assoc)
qed simp

lemma digits_value_shift:
  "digits_value b s = Some f \<Longrightarrow> digits_value (a + b) s = Some (a * 10 ^ length s + f)"
proof (induction s arbitrary: a b)
  case (Cons c s)
  then obtain d where d: "digit_value c = Some d" "digits_value (10 * b + d) s = Some f"
    by (auto split: option.splits)
  have "10 * (a + b) + d = 10 * a + (10 * b + d)" by simp
  then show ?case using d(1) Cons.IH [OF d(2), of "10 * a"]
    by (simp add: add.assoc mult.assoc mult.left_commute)
qed simp

lemma leadingInt_digits:
  "digits_value acc s = Some n \<Longrightarrow> n \<le> 2 ^ 63 \<Longrightarrow> stops t \<Longrightarrow> leadingInt acc (s @ t) = Inr (n, t)"
proof (induction s arbitrary: acc)
  case Nil
  then show ?case by (cases t) (auto simp: stops_def)
next
  case (Cons c s)
  then obtain d where d: "digit_value c = Some d" "digits_value (10 * acc + d) s = Some n"
    by (auto split: option.splits)
  have "10 * acc + d \<le> (10 * acc + d) * 10 ^ length s" by simp
  then have "10 * acc + d \<le> 2 ^ 63" using digits_value_mono [OF d(2)] Cons.prems(2) by linarith
  then have "\<not> 2 ^ 63 div 10 < acc" "\<not> 2 ^ 63 < acc * 10 + d" by (simp_all add: mult.commute)
  then show ?case using d Cons.IH [OF d(2)] Cons.prems
    by (simp add: Let_def mult.commute)
qed

lemma leadingFraction_digits:
  "digits_value acc s = Some f \<Longrightarrow> f < 10 ^ 10 \<Longrightarrow> stops t
     \<Longrightarrow> leadingFraction acc sc False (s @ t) = (f, sc * 10 ^ length s, t)"
proof (induction s arbitrary: acc sc)
  case Nil
  then show ?case by (cases t) (auto simp: stops_def)
next
  case (Cons c s)
  then obtain d where d: "digit_value c = Some d" "digits_value (10 * acc + d) s = Some f"
    by (auto split: option.splits)
  have "10 * acc + d \<le> (10 * acc + d) * 10 ^ length s" by simp
  then have "10 * acc + d < 10 ^ 10" using digits_value_mono [OF d(2)] Cons.prems(2) by linarith
  then have "\<not> (2 ^ 63 - 1) div 10 < acc" "\<not> 2 ^ 63 < acc * 10 + d" by (simp_all add: mult.commute)
  then show ?case using d Cons.IH [OF d(2), of "sc * 10"] Cons.prems
    by (simp add: Let_def mult.commute mult.left_commute)
qed

text \<open>
  The fraction \<open>fmtFrac\<close> prints: nothing when it is zero, otherwise a point and at most
  \<open>n\<close> digits that stand for it.
\<close>

lemma fmtFrac_digits:
  assumes "digits_value 0 ds = Some f" "pr \<longleftrightarrow> ds \<noteq> []" "0 < f \<longleftrightarrow> pr"
  shows "\<exists>ds' f'. fmtFrac n pr v (ds @ unit) =
             ((if ds' = [] then unit else CHR ''.'' # ds' @ unit), v div 10 ^ n)
           \<and> digits_value 0 ds' = Some f' \<and> (0 < f' \<longleftrightarrow> ds' \<noteq> [])
           \<and> length ds' \<le> length ds + n
           \<and> f' * 10 ^ (length ds + n - length ds') = (v mod 10 ^ n) * 10 ^ length ds + f"
  using assms
proof (induction n arbitrary: pr v ds f)
  case 0
  then show ?case by (intro exI [of _ ds] exI [of _ f]) auto
next
  case (Suc n)
  define d where "d = v mod 10"
  have dv: "digit_value (digit_char d) = Some d" by (simp add: d_def)
  have split: "v mod 10 ^ Suc n = (v div 10 mod 10 ^ n) * 10 + d"
    by (simp add: d_def mod_mult2_eq)
  show ?case
  proof (cases "pr \<or> d \<noteq> 0")
    case False
    then have "ds = []" "f = 0" using Suc.prems by auto
    with False obtain ds' f' where *: "fmtFrac n False (v div 10) ([] @ unit) =
             ((if ds' = [] then unit else CHR ''.'' # ds' @ unit), v div 10 div 10 ^ n)"
       "digits_value 0 ds' = Some f'" "0 < f' \<longleftrightarrow> ds' \<noteq> []" "length ds' \<le> n"
       "f' * 10 ^ (n - length ds') = v div 10 mod 10 ^ n"
      using Suc.IH [of "[]" 0 False "v div 10"] by auto
    have "f' * 10 ^ (Suc n - length ds') = v mod 10 ^ Suc n"
      using *(4,5) False unfolding split by (simp add: Suc_diff_le)
    then show ?thesis using * False \<open>ds = []\<close> \<open>f = 0\<close>
      by (intro exI [of _ ds'] exI [of _ f']) (simp add: d_def div_mult2_eq Let_def)
  next
    case True
    let ?ds = "digit_char d # ds" and ?f = "d * 10 ^ length ds + f"
    have val: "digits_value a ds = Some (a * 10 ^ length ds + f)" for a
      using digits_value_shift [OF Suc.prems(1), of a] by simp
    have "digits_value 0 ?ds = Some ?f" using dv val [of d] by simp
    moreover have "0 < ?f" using True Suc.prems by auto
    ultimately obtain ds' f' where *: "fmtFrac n True (v div 10) (?ds @ unit) =
             ((if ds' = [] then unit else CHR ''.'' # ds' @ unit), v div 10 div 10 ^ n)"
       "digits_value 0 ds' = Some f'" "0 < f' \<longleftrightarrow> ds' \<noteq> []" "length ds' \<le> length ?ds + n"
       "f' * 10 ^ (length ?ds + n - length ds') = (v div 10 mod 10 ^ n) * 10 ^ length ?ds + ?f"
      using Suc.IH [of ?ds ?f True "v div 10"] by auto
    have "f' * 10 ^ (length ds + Suc n - length ds') = (v mod 10 ^ Suc n) * 10 ^ length ds + f"
      using *(5) unfolding split by (simp add: algebra_simps)
    then show ?thesis using * True
      by (intro exI [of _ ds'] exI [of _ f']) (simp add: d_def div_mult2_eq Let_def)
  qed
qed

text \<open>A printed term, with or without a fraction, is read as what it stands for.\<close>

lemma unit_char_stops: "t = [] \<or> unit_char (hd t) \<Longrightarrow> stops t"
  by (auto simp: stops_def unit_char_def)

lemma duration_term_printed:
  assumes unit: "unitMap u = Some k" "u \<noteq> []" "list_all unit_char u" "0 < k"
    and ds: "digits_value 0 ds = Some f" "f < 10 ^ 10" "0 < f \<longleftrightarrow> ds \<noteq> []"
    and rest: "rest = [] \<or> \<not> unit_char (hd rest)"
    and w: "w = v * k + (if ds = [] then 0 else fraction_part f (10 ^ length ds) k)" "w \<le> 2 ^ 63"
  shows "duration_term (print_nat v @ (if ds = [] then u else CHR ''.'' # ds @ u) @ rest) = Inr (w, rest)"
proof -
  let ?t = "(if ds = [] then u else CHR ''.'' # ds @ u) @ rest"
  have hdu: "unit_char (hd u)" using unit by (cases u) auto
  have v: "v \<le> 2 ^ 63 div k" using w unit(4) by (simp add: less_eq_div_iff_mult_less_eq)
  also have "\<dots> \<le> 2 ^ 63" by simp
  finally have lead: "leadingInt 0 (print_nat v @ ?t) = Inr (v, ?t)"
    using unit(2) hdu by (intro leadingInt_digits digits_print_nat) (auto simp: stops_def unit_char_def digit_value.simps)
  have first: "\<not> unit_char (hd (print_nat v @ ?t))"
    using print_nat_digits [of "hd (print_nat v)" v] by (auto simp: unit_char_def)
  have us: "takeWhile unit_char (u @ rest) = u" "dropWhile unit_char (u @ rest) = rest"
    using unit(3) rest by (auto simp: takeWhile_append2 dropWhile_append2 list_all_iff takeWhile_eq_Nil_iff dropWhile_eq_self_iff)
  show ?thesis
  proof (cases "ds = []")
    case True
    then have "hd ?t \<noteq> CHR ''.''" using hdu unit(2) by (simp add: unit_char_def)
    then show ?thesis using True lead first us unit v w ds
      by (simp add: duration_term_def Let_def not_less)
  next
    case False
    have "leadingFraction 0 1 False (ds @ u @ rest) = (f, 10 ^ length ds, u @ rest)"
      using leadingFraction_digits [OF ds(1,2), of "u @ rest" 1] unit_char_stops hdu unit(2) by simp
    then show ?thesis using False lead first us unit v w ds
      by (simp add: duration_term_def Let_def not_less)
  qed
qed

lemma fmtFrac_term:
  assumes "unitMap u = Some (10 ^ n)" "u \<noteq> []" "list_all unit_char u" "n \<le> 9"
  obtains buf where "fmtFrac n False x u = (buf, x div 10 ^ n)"
    and "\<And>v rest. rest = [] \<or> \<not> unit_char (hd rest) \<Longrightarrow> v * 10 ^ n + x mod 10 ^ n \<le> 2 ^ 63
           \<Longrightarrow> duration_term (print_nat v @ buf @ rest) = Inr (v * 10 ^ n + x mod 10 ^ n, rest)"
proof -
  obtain ds f where *: "fmtFrac n False x u = ((if ds = [] then u else CHR ''.'' # ds @ u), x div 10 ^ n)"
    "digits_value 0 ds = Some f" "0 < f \<longleftrightarrow> ds \<noteq> []" "length ds \<le> n" "f * 10 ^ (n - length ds) = x mod 10 ^ n"
    using fmtFrac_digits [of "[]" 0 False n x u] by auto
  have f: "f < 10 ^ length ds" using digits_value_less [OF *(2)] by simp
  also have "\<dots> \<le> 10 ^ 9" using *(4) assms(4) by (intro power_increasing) auto
  finally have small: "f < 10 ^ 10" by simp
  have frac: "(if ds = [] then 0 else fraction_part f (10 ^ length ds) (10 ^ n)) = x mod 10 ^ n"
  proof (cases "ds = []")
    case False
    then show ?thesis using fraction_exact [OF *(4) assms(4) _ f] *(3,5) by simp
  qed (use *(2,5) in auto)
  show ?thesis
  proof (rule that [OF *(1)])
    fix v rest
    assume "rest = [] \<or> \<not> unit_char (hd rest)" "v * 10 ^ n + x mod 10 ^ n \<le> 2 ^ 63"
    then show "duration_term (print_nat v @ (if ds = [] then u else CHR ''.'' # ds @ u) @ rest) = Inr (v * 10 ^ n + x mod 10 ^ n, rest)"
      by (intro duration_term_printed [OF assms(1-3) _ *(2) small *(3)]) (simp_all only: frac, simp)
  qed
qed

lemma duration_sum_step:
  assumes "duration_term s = Inr (w, rest)" "d + w \<le> 2 ^ 63"
  shows "duration_sum d s = duration_sum (d + w) rest"
proof -
  have "s \<noteq> []" using duration_term_shorter [OF assms(1)] by auto
  moreover have "(d + w) mod 2 ^ 64 = d + w" using assms(2) by simp
  ultimately show ?thesis using assms by (subst duration_sum.simps) (simp add: Let_def)
qed

lemma duration_sum_Nil [simp]: "duration_sum d [] = Inr d"
  by (subst duration_sum.simps) simp

lemma unit_texts:
  "unitMap ''ns'' = Some (10 ^ 0)" "unitMap [CHR 0xC2, CHR 0xB5, CHR ''s''] = Some (10 ^ 3)"
  "unitMap ''ms'' = Some (10 ^ 6)" "unitMap ''s'' = Some (10 ^ 9)"
  "unitMap ''m'' = Some 60000000000" "unitMap ''h'' = Some 3600000000000"
  by (simp_all add: unitMap_def)

lemma unit_text_chars:
  "list_all unit_char ''ns''" "list_all unit_char [CHR 0xC2, CHR 0xB5, CHR ''s'']"
  "list_all unit_char ''ms''" "list_all unit_char ''s''" "list_all unit_char ''m''" "list_all unit_char ''h''"
  by (simp_all add: unit_char_def digit_value.simps)

lemma print_nat_head: "s = print_nat v @ t \<Longrightarrow> s = [] \<or> \<not> unit_char (hd s)"
  using print_nat_digits [of "hd (print_nat v)" v] by (auto simp: unit_char_def)

lemma whole_term:
  assumes "unitMap u = Some k" "u \<noteq> []" "list_all unit_char u" "0 < k" "v * k \<le> 2 ^ 63"
  shows "duration_term (print_nat v @ u @ print_nat n @ t) = Inr (v * k, print_nat n @ t)"
  using duration_term_printed [OF assms(1-4), of "[]" 0 "print_nat n @ t" "v * k" v] assms(5)
    print_nat_head [of _ n t] by simp

lemma clock_parts:
  "s = (h * 60 + m) * 60 + c \<Longrightarrow> u = s * 10 ^ 9 + r
     \<Longrightarrow> h * 3600000000000 + (m * 60000000000 + (c * 10 ^ 9 + r)) = (u :: nat)"
  by simp

lemma digit_char_0: "digit_char 0 = CHR ''0''"
  by (simp add: digit_char_def char_of_eq_iff)

lemma duration_sum_seconds:
  assumes "1000000000 \<le> u" "u \<le> 2 ^ 63"
  shows "duration_sum 0 (Duration_text u) = Inr u"
proof -
  obtain buf where b: "fmtFrac 9 False u ''s'' = (buf, u div 10 ^ 9)"
    and tm: "\<And>v. v * 10 ^ 9 + u mod 10 ^ 9 \<le> 2 ^ 63
           \<Longrightarrow> duration_term (print_nat v @ buf) = Inr (v * 10 ^ 9 + u mod 10 ^ 9, [])"
    using fmtFrac_term [OF unit_texts(4) _ unit_text_chars(4), of u] by (metis append_Nil2 list.distinct(1) order_refl)
  define s where "s = u div 10 ^ 9"
  have u: "u = s * 10 ^ 9 + u mod 10 ^ 9" by (simp add: s_def)
  have seconds: "duration_sum d (print_nat (s mod 60) @ buf) = Inr (d + (s mod 60 * 10 ^ 9 + u mod 10 ^ 9))"
    if "d + (s mod 60 * 10 ^ 9 + u mod 10 ^ 9) \<le> 2 ^ 63" for d
    using duration_sum_step [OF tm that] that by simp
  have minutes: "duration_sum d (print_nat (s div 60 mod 60) @ ''m'' @ print_nat (s mod 60) @ buf)
      = Inr (d + (s div 60 mod 60 * 60000000000 + (s mod 60 * 10 ^ 9 + u mod 10 ^ 9)))"
    if "d + (s div 60 mod 60 * 60000000000 + (s mod 60 * 10 ^ 9 + u mod 10 ^ 9)) \<le> 2 ^ 63" for d
    using duration_sum_step [OF whole_term [OF unit_texts(5) _ unit_text_chars(5)], of "s div 60 mod 60" d "s mod 60" buf]
      seconds [of "d + s div 60 mod 60 * 60000000000"] that by simp
  have parts: "s div 60 div 60 * 3600000000000 + (s div 60 mod 60 * 60000000000 + (s mod 60 * 10 ^ 9 + u mod 10 ^ 9)) = u"
    by (rule clock_parts [OF _ u]) simp
  have hours: "duration_sum 0 (print_nat (s div 60 div 60) @ ''h'' @ print_nat (s div 60 mod 60) @ ''m'' @ print_nat (s mod 60) @ buf)
      = Inr u"
    using duration_sum_step [OF whole_term [OF unit_texts(6) _ unit_text_chars(6)], of "s div 60 div 60" 0 "s div 60 mod 60" "''m'' @ print_nat (s mod 60) @ buf"]
      minutes [of "s div 60 div 60 * 3600000000000"] parts assms(2) by simp
  have b: "fmtFrac 9 False u ''s'' = (buf, s)" using b by (simp add: s_def)
  consider "s div 60 = 0" | "s div 60 \<noteq> 0" "s div 60 div 60 = 0" | "s div 60 div 60 \<noteq> 0" by linarith
  then show ?thesis
  proof cases
    case 1
    then have "duration_sum 0 (print_nat (s mod 60) @ buf) = Inr u"
      using seconds [of 0] parts assms by simp
    then show ?thesis using 1 assms by (simp add: Duration_text_def b)
  next
    case 2
    then have "duration_sum 0 (print_nat (s div 60 mod 60) @ ''m'' @ print_nat (s mod 60) @ buf) = Inr u"
      using minutes [of 0] parts assms by simp
    then show ?thesis using 2 assms by (simp add: Duration_text_def b)
  next
    case 3
    then have "s div 60 \<noteq> 0" by auto
    then show ?thesis using 3 hours assms by (simp add: Duration_text_def b Let_def)
  qed
qed

lemma duration_sum_text:
  assumes "u \<le> 2 ^ 63"
  shows "duration_sum 0 (Duration_text u) = Inr u"
proof -
  have frac: "duration_sum 0 (print_nat (u div 10 ^ n) @ fst (fmtFrac n False u t)) = Inr u
      \<and> snd (fmtFrac n False u t) = u div 10 ^ n"
    if unit: "unitMap t = Some (10 ^ n)" "t \<noteq> []" "list_all unit_char t" "n \<le> 9" for n t
  proof -
    obtain buf where "fmtFrac n False u t = (buf, u div 10 ^ n)"
      "duration_term (print_nat (u div 10 ^ n) @ buf) = Inr (u, [])"
      using fmtFrac_term [OF unit, of u] assms by (metis append_Nil2 div_mult_mod_eq)
    then show ?thesis using duration_sum_step [of _ u "[]" 0] assms by simp
  qed
  have zero: "duration_sum 0 ''0s'' = Inr 0"
  proof -
    have "duration_term ''0s'' = Inr (0, [])"
      using duration_term_printed [OF unit_texts(4) _ unit_text_chars(4), of "[]" 0 "[]" 0 0]
      by (simp add: print_nat.simps [of 0] digit_char_0)
    then show ?thesis using duration_sum_step [of "''0s''" 0 "[]" 0] by simp
  qed
  consider "u = 0" | "0 < u" "u < 1000" | "1000 \<le> u" "u < 1000000" | "1000000 \<le> u" "u < 1000000000" | "1000000000 \<le> u"
    by linarith
  then show ?thesis
  proof cases
    case 1
    then show ?thesis using zero by (simp add: Duration_text_def)
  next
    case 2
    then show ?thesis using frac [OF unit_texts(1) _ unit_text_chars(1)] by (simp add: Duration_text_def split_beta)
  next
    case 3
    then show ?thesis using frac [OF unit_texts(2) _ unit_text_chars(2)] by (simp add: Duration_text_def split_beta)
  next
    case 4
    then show ?thesis using frac [OF unit_texts(3) _ unit_text_chars(3)] by (simp add: Duration_text_def split_beta)
  qed (use duration_sum_seconds assms in blast)
qed

lemma Duration_text_head: "\<exists>n t. Duration_text u = print_nat n @ t"
proof (cases "u = 0")
  case True
  have "''0s'' = print_nat 0 @ ''s''" by (simp add: print_nat.simps [of 0] digit_char_0)
  then have "Duration_text u = print_nat 0 @ ''s''" using True by (simp add: Duration_text_def)
  then show ?thesis by blast
next
  case False
  then show ?thesis unfolding Duration_text_def Let_def
    by (simp split: prod.split) blast
qed

lemma digit_not_sign: "digit_value c \<noteq> None \<Longrightarrow> c \<noteq> CHR ''-'' \<and> c \<noteq> CHR ''+''"
  by (auto simp: digit_value.simps)

text \<open>Every duration is read back from its text.\<close>

lemma ParseDuration_String:
  assumes "min_int64 \<le> d" "d \<le> max_int64"
  shows "ParseDuration (Duration_String d) = Inr d"
proof -
  have head: "Duration_text u \<noteq> []" "hd (Duration_text u) \<noteq> CHR ''-''" "hd (Duration_text u) \<noteq> CHR ''+''" for u
  proof -
    obtain n t where t: "Duration_text u = print_nat n @ t" using Duration_text_head by blast
    then show "Duration_text u \<noteq> []" "hd (Duration_text u) \<noteq> CHR ''-''" "hd (Duration_text u) \<noteq> CHR ''+''"
      using digit_not_sign [OF print_nat_digits [of "hd (print_nat n)" n]] by auto
  qed
  have "duration_sum 0 ''0'' \<noteq> Inr u" for u
    by (subst duration_sum.simps) (simp add: duration_term_def unit_char_def digit_value.simps)
  then have not0: "Duration_text u \<noteq> ''0''" if "u \<le> 2 ^ 63" for u
    using duration_sum_text [OF that] by force
  show ?thesis
  proof (cases "d < 0")
    case True
    then have "nat (- d) \<le> 2 ^ 63" using assms by (simp add: min_int64_def)
    then show ?thesis using True head [of "nat (- d)"] not0 duration_sum_text
      by (simp add: ParseDuration_def Duration_String_def Let_def)
  next
    case False
    then have "nat d \<le> 2 ^ 63 - 1" using assms by (simp add: max_int64_def)
    then show ?thesis using False head [of "nat d"] not0 [of "nat d"] duration_sum_text [of "nat d"]
      by (simp add: ParseDuration_def Duration_String_def Let_def)
  qed
qed

end
