(* ===== verification/Config.thy ===== *)
theory Config
  imports GoDuration Pterodactyl
begin

text \<open>
  pkg/config/config.go: the configuration, its defaults, the YAML file, the overrides by the
  environment and the validation. The environment is a function from names to values; the
  YAML decoder, a third-party package, and the opening of the file are fields of \<open>oslib\<close>.
  The two loops over Go maps take their (unspecified) iteration order as an argument.
\<close>

record config =
  cfg_ListenAddr :: string
  cfg_ServerAddr :: string
  cfg_MaxSessions :: int
  cfg_MaxPacketSize :: int
  cfg_Game :: string
  cfg_AutoStopDelay :: duration
  cfg_IdleTimeout :: duration
  cfg_StartupTimeout :: duration
  cfg_StartupPollInterval :: duration
  cfg_StartupSettleDelay :: duration
  cfg_StartupBufferPackets :: int
  cfg_StartupBufferBytesPerSession :: int
  cfg_StartupBufferBytesGlobal :: int
  cfg_WakePolicy :: string
  cfg_WakeSignatures :: "string list"
  cfg_LogUnmatchedPrefixes :: bool
  cfg_DiagnosticPrefixBytes :: int
  cfg_HealthAddr :: string
  cfg_BackendReadinessMode :: string
  cfg_BackendReadinessAddr :: string
  cfg_Pterodactyl :: pterodactyl_config
  cfg_LogLevel :: string

definition maxUDPPayloadSize :: int where "maxUDPPayloadSize = 65507"

section \<open>Redaction\<close>

definition redaction :: string where
  "redaction = ''***REDACTED***''"

definition redacted_config :: "config \<Rightarrow> config" where
  "redacted_config cfg =
     (let c1 = cfg\<lparr>cfg_ServerAddr := redaction\<rparr>;
          c2 = (if cfg_BackendReadinessAddr c1 \<noteq> [] then c1\<lparr>cfg_BackendReadinessAddr := redaction\<rparr> else c1)
      in c2\<lparr>cfg_Pterodactyl := \<lparr>pc_BaseURL = redaction, pc_APIToken = redaction, pc_ServerID = redaction\<rparr>\<rparr>)"

text \<open>
  What \<open>%+v\<close> prints for the structure: each field with its name, durations by their
  \<open>String\<close> method, a slice in brackets.
\<close>

fun print_words :: "string list \<Rightarrow> string" where
  "print_words [] = []"
| "print_words [w] = w"
| "print_words (w # ws) = w @ '' '' @ print_words ws"

definition print_bool :: "bool \<Rightarrow> string" where
  "print_bool b = (if b then ''true'' else ''false'')"

definition print_fields :: "(string \<times> string) list \<Rightarrow> string" where
  "print_fields fs = ''{'' @ print_words (map (\<lambda>(n, v). n @ '':'' @ v) fs) @ ''}''"

definition print_config :: "config \<Rightarrow> string" where
  "print_config c = print_fields
     [(''ListenAddr'', cfg_ListenAddr c), (''ServerAddr'', cfg_ServerAddr c),
      (''MaxSessions'', print_int (cfg_MaxSessions c)), (''MaxPacketSize'', print_int (cfg_MaxPacketSize c)),
      (''Game'', cfg_Game c), (''AutoStopDelay'', Duration_String (cfg_AutoStopDelay c)),
      (''IdleTimeout'', Duration_String (cfg_IdleTimeout c)),
      (''StartupTimeout'', Duration_String (cfg_StartupTimeout c)),
      (''StartupPollInterval'', Duration_String (cfg_StartupPollInterval c)),
      (''StartupSettleDelay'', Duration_String (cfg_StartupSettleDelay c)),
      (''StartupBufferPackets'', print_int (cfg_StartupBufferPackets c)),
      (''StartupBufferBytesPerSession'', print_int (cfg_StartupBufferBytesPerSession c)),
      (''StartupBufferBytesGlobal'', print_int (cfg_StartupBufferBytesGlobal c)),
      (''WakePolicy'', cfg_WakePolicy c), (''WakeSignatures'', ''['' @ print_words (cfg_WakeSignatures c) @ '']''),
      (''LogUnmatchedPrefixes'', print_bool (cfg_LogUnmatchedPrefixes c)),
      (''DiagnosticPrefixBytes'', print_int (cfg_DiagnosticPrefixBytes c)),
      (''HealthAddr'', cfg_HealthAddr c), (''BackendReadinessMode'', cfg_BackendReadinessMode c),
      (''BackendReadinessAddr'', cfg_BackendReadinessAddr c),
      (''Pterodactyl'', print_fields [(''BaseURL'', pc_BaseURL (cfg_Pterodactyl c)),
         (''APIToken'', pc_APIToken (cfg_Pterodactyl c)), (''ServerID'', pc_ServerID (cfg_Pterodactyl c))]),
      (''LogLevel'', cfg_LogLevel c)]"

definition RedactedString :: "config \<Rightarrow> string" where
  "RedactedString cfg = print_config (redacted_config cfg)"

section \<open>Validation\<close>

text \<open>The loop over the signatures: every one is non-empty hexadecimal.\<close>

fun signatures_valid :: "string list \<Rightarrow> bool" where
  "signatures_valid [] = True"
| "signatures_valid (signature # rest) =
     (case hex_DecodeString (TrimSpace signature) of
        Inl e \<Rightarrow> False
      | Inr decoded \<Rightarrow> if length decoded = 0 then False else signatures_valid rest)"

definition Validate_network :: "netlib \<Rightarrow> config \<Rightarrow> goerror option" where
  "Validate_network lib cfg =
     (case ResolveUDPAddr lib (cfg_ListenAddr cfg) of
        Inl e \<Rightarrow> Some (Wrap ''invalid listen_addr'' e)
      | Inr _ \<Rightarrow>
          if TrimSpace (cfg_ServerAddr cfg) = [] then Some (ErrText ''server_addr is required'')
          else case ResolveUDPAddr lib (cfg_ServerAddr cfg) of
                 Inl e \<Rightarrow> Some (Wrap ''invalid server_addr'' e)
               | Inr serverAddr \<Rightarrow>
                   if \<not> specific_ip serverAddr
                   then Some (ErrText ''server_addr must identify a specific backend host'') else None)"

definition Validate_limits :: "config \<Rightarrow> goerror option" where
  "Validate_limits cfg =
     (if cfg_MaxSessions cfg < 1 then Some (ErrText ''max_sessions must be positive'')
      else if cfg_MaxPacketSize cfg < 1 \<or> cfg_MaxPacketSize cfg > maxUDPPayloadSize then
        Some (ErrText ''max_packet_size must be between 1 and 65507'')
      else if cfg_Game cfg \<noteq> ''palworld'' then Some (ErrText ''game must be palworld'')
      else if cfg_IdleTimeout cfg \<le> 0 then Some (ErrText ''idle_timeout must be positive'')
      else if cfg_AutoStopDelay cfg \<le> 0 then Some (ErrText ''auto_stop_delay must be positive'')
      else if cfg_StartupTimeout cfg \<le> 0 then Some (ErrText ''startup_timeout must be positive'')
      else if cfg_StartupPollInterval cfg \<le> 0 \<or> cfg_StartupPollInterval cfg \<ge> cfg_StartupTimeout cfg then
        Some (ErrText ''startup_poll_interval must be positive and shorter than startup_timeout'')
      else if cfg_StartupSettleDelay cfg < 0 \<or> cfg_StartupSettleDelay cfg \<ge> cfg_StartupTimeout cfg then
        Some (ErrText ''startup_settle_delay must be non-negative and shorter than startup_timeout'')
      else if cfg_StartupBufferPackets cfg < 1 then Some (ErrText ''startup_buffer_packets must be positive'')
      else if cfg_StartupBufferBytesPerSession cfg < cfg_MaxPacketSize cfg then
        Some (ErrText ''startup_buffer_bytes_per_session must hold at least one max_packet_size datagram'')
      else if cfg_StartupBufferBytesGlobal cfg < cfg_StartupBufferBytesPerSession cfg then
        Some (ErrText ''startup_buffer_bytes_global must be at least startup_buffer_bytes_per_session'')
      else None)"

definition Validate_wake :: "config \<Rightarrow> goerror option" where
  "Validate_wake cfg =
     (if cfg_WakePolicy cfg \<noteq> ''signature'' \<and> cfg_WakePolicy cfg \<noteq> ''any'' then
        Some (ErrText ''wake_policy must be signature or any'')
      else if cfg_WakePolicy cfg = ''signature'' \<and> length (cfg_WakeSignatures cfg) = 0 then
        Some (ErrText ''wake_signatures must not be empty under signature policy'')
      else if \<not> signatures_valid (cfg_WakeSignatures cfg) then
        Some (ErrText ''wake_signatures must contain non-empty hexadecimal prefixes'')
      else if cfg_DiagnosticPrefixBytes cfg < 1 \<or> cfg_DiagnosticPrefixBytes cfg > 32 then
        Some (ErrText ''diagnostic_prefix_bytes must be between 1 and 32'')
      else None)"

definition Validate_probes :: "netlib \<Rightarrow> config \<Rightarrow> goerror option" where
  "Validate_probes lib cfg =
     (case ResolveTCPAddr lib (cfg_HealthAddr cfg) of
        Inl e \<Rightarrow> Some (Wrap ''invalid health_addr'' e)
      | Inr healthAddr \<Rightarrow>
          if \<not> loopback_ip healthAddr then Some (ErrText ''health_addr must use a loopback address'')
          else if cfg_BackendReadinessMode cfg \<noteq> ''pterodactyl'' \<and> cfg_BackendReadinessMode cfg \<noteq> ''a2s''
                  \<and> cfg_BackendReadinessMode cfg \<noteq> ''delay'' then
            Some (ErrText ''backend_readiness_mode must be pterodactyl, a2s, or delay'')
          else if cfg_BackendReadinessAddr cfg \<noteq> [] then
            (if cfg_BackendReadinessMode cfg \<noteq> ''a2s'' then
               Some (ErrText ''backend_readiness_addr is only valid in a2s mode'')
             else case ResolveUDPAddr lib (cfg_BackendReadinessAddr cfg) of
                    Inl e \<Rightarrow> Some (Wrap ''invalid backend_readiness_addr'' e)
                  | Inr readinessAddr \<Rightarrow>
                      if \<not> specific_ip readinessAddr
                      then Some (ErrText ''backend_readiness_addr must identify a specific host'') else None)
          else None)"

definition Validate_panel :: "netlib \<Rightarrow> config \<Rightarrow> goerror option" where
  "Validate_panel lib cfg =
     (case url_Parse lib (pc_BaseURL (cfg_Pterodactyl cfg)) of
        Inl e \<Rightarrow> Some (ErrText ''pterodactyl.base_url must be a valid HTTP or HTTPS URL without user info'')
      | Inr panelURL \<Rightarrow>
          if (Scheme panelURL \<noteq> ''http'' \<and> Scheme panelURL \<noteq> ''https'') \<or> Host panelURL = [] \<or> has_User panelURL then
            Some (ErrText ''pterodactyl.base_url must be a valid HTTP or HTTPS URL without user info'')
          else if Scheme panelURL = ''http'' \<and> Hostname panelURL \<noteq> ''localhost''
                  \<and> \<not> loopback_ip (ParseIP lib (Hostname panelURL)) then
            Some (ErrText ''pterodactyl.base_url may use plaintext HTTP only for loopback tests'')
          else if TrimSpace (pc_APIToken (cfg_Pterodactyl cfg)) = [] then
            Some (ErrText ''pterodactyl.api_token is required'')
          else if TrimSpace (pc_ServerID (cfg_Pterodactyl cfg)) = [] then
            Some (ErrText ''pterodactyl.server_id is required'')
          else None)"

definition log_levels :: "string list" where
  "log_levels = [''debug'', ''info'', ''warn'', ''error'', ''fatal'']"

text \<open>The checks in the order of the source; the first that fails is the result.\<close>

definition or_else :: "goerror option \<Rightarrow> goerror option \<Rightarrow> goerror option" where
  "or_else a b = (case a of Some e \<Rightarrow> Some e | None \<Rightarrow> b)"

definition Validate :: "netlib \<Rightarrow> config \<Rightarrow> goerror option" where
  "Validate lib cfg =
     or_else (Validate_network lib cfg)
    (or_else (Validate_limits cfg)
    (or_else (Validate_wake cfg)
    (or_else (Validate_probes lib cfg)
    (or_else (Validate_panel lib cfg)
    (if \<not> List.member log_levels (cfg_LogLevel cfg)
     then Some (ErrText ''log_level must be debug, info, warn, error, or fatal'') else None)))))"

lemma or_else_None [simp]: "or_else a b = None \<longleftrightarrow> a = None \<and> b = None"
  by (auto simp: or_else_def split: option.split)

section \<open>Defaults\<close>

definition DefaultConfig :: config where
  "DefaultConfig = \<lparr>
     cfg_ListenAddr = '':8211'', cfg_ServerAddr = [], cfg_MaxSessions = 32,
     cfg_MaxPacketSize = maxUDPPayloadSize, cfg_Game = ''palworld'',
     cfg_AutoStopDelay = minute, cfg_IdleTimeout = 30 * second,
     cfg_StartupTimeout = 5 * minute, cfg_StartupPollInterval = 2 * second,
     cfg_StartupSettleDelay = 5 * second, cfg_StartupBufferPackets = 32,
     cfg_StartupBufferBytesPerSession = 262144, cfg_StartupBufferBytesGlobal = 4194304,
     cfg_WakePolicy = ''signature'', cfg_WakeSignatures = [''09080004bc597e73''],
     cfg_LogUnmatchedPrefixes = False, cfg_DiagnosticPrefixBytes = 8,
     cfg_HealthAddr = ''127.0.0.1:8080'', cfg_BackendReadinessMode = ''pterodactyl'',
     cfg_BackendReadinessAddr = [],
     cfg_Pterodactyl = \<lparr>pc_BaseURL = [], pc_APIToken = [], pc_ServerID = []\<rparr>,
     cfg_LogLevel = ''info''\<rparr>"

section \<open>Overrides by the environment\<close>

text \<open>
  An override is a step on the configuration that may fail; a failing one ends the function
  with the configuration as it is then. \<open>sequence\<close> runs the statements one after the other.
\<close>

type_synonym environment = "string \<Rightarrow> string option"
type_synonym override = "config \<Rightarrow> goerror option \<times> config"

fun sequence :: "override list \<Rightarrow> override" where
  "sequence [] c = (None, c)"
| "sequence (f # fs) c = (case f c of (Some e, c1) \<Rightarrow> (Some e, c1) | (None, c1) \<Rightarrow> sequence fs c1)"

definition override_string :: "environment \<Rightarrow> string \<Rightarrow> (string \<Rightarrow> config \<Rightarrow> config) \<Rightarrow> override" where
  "override_string env name put c = (case env name of None \<Rightarrow> (None, c) | Some val \<Rightarrow> (None, put val c))"

definition override_parsed ::
    "environment \<Rightarrow> (string \<Rightarrow> goerror + 'v) \<Rightarrow> string \<Rightarrow> ('v \<Rightarrow> config \<Rightarrow> config) \<Rightarrow> override" where
  "override_parsed env parse name put c =
     (case env name of
        None \<Rightarrow> (None, c)
      | Some val \<Rightarrow>
          (case parse val of
             Inl e \<Rightarrow> (Some (Wrap (''invalid '' @ name) e), c)
           | Inr v \<Rightarrow> (None, put v c)))"

text \<open>The targets of the two loops over maps, by the name of the variable.\<close>

definition duration_names :: "string list" where
  "duration_names = [''STARTUP_TIMEOUT'', ''STARTUP_POLL_INTERVAL'', ''STARTUP_SETTLE_DELAY'']"

definition put_duration :: "string \<Rightarrow> duration \<Rightarrow> config \<Rightarrow> config" where
  "put_duration name d c =
     (if name = ''STARTUP_TIMEOUT'' then c\<lparr>cfg_StartupTimeout := d\<rparr>
      else if name = ''STARTUP_POLL_INTERVAL'' then c\<lparr>cfg_StartupPollInterval := d\<rparr>
      else if name = ''STARTUP_SETTLE_DELAY'' then c\<lparr>cfg_StartupSettleDelay := d\<rparr>
      else c)"

definition int_names :: "string list" where
  "int_names = [''STARTUP_BUFFER_PACKETS'', ''STARTUP_BUFFER_BYTES_PER_SESSION'',
     ''STARTUP_BUFFER_BYTES_GLOBAL'', ''DIAGNOSTIC_PREFIX_BYTES'']"

definition put_int :: "string \<Rightarrow> int \<Rightarrow> config \<Rightarrow> config" where
  "put_int name n c =
     (if name = ''STARTUP_BUFFER_PACKETS'' then c\<lparr>cfg_StartupBufferPackets := n\<rparr>
      else if name = ''STARTUP_BUFFER_BYTES_PER_SESSION'' then c\<lparr>cfg_StartupBufferBytesPerSession := n\<rparr>
      else if name = ''STARTUP_BUFFER_BYTES_GLOBAL'' then c\<lparr>cfg_StartupBufferBytesGlobal := n\<rparr>
      else if name = ''DIAGNOSTIC_PREFIX_BYTES'' then c\<lparr>cfg_DiagnosticPrefixBytes := n\<rparr>
      else c)"

definition override_bool :: "environment \<Rightarrow> string \<Rightarrow> (bool \<Rightarrow> config \<Rightarrow> config) \<Rightarrow> override" where
  "override_bool env name put c =
     (case env name of
        None \<Rightarrow> (None, c)
      | Some val \<Rightarrow>
          if val = ''true'' then (None, put True c)
          else if val = ''false'' then (None, put False c)
          else (Some (ErrText (''invalid '' @ name)), c))"

definition put_pterodactyl :: "(pterodactyl_config \<Rightarrow> pterodactyl_config) \<Rightarrow> config \<Rightarrow> config" where
  "put_pterodactyl f c = c\<lparr>cfg_Pterodactyl := f (cfg_Pterodactyl c)\<rparr>"

definition applyEnvOverrides :: "environment \<Rightarrow> string list \<Rightarrow> string list \<Rightarrow> override" where
  "applyEnvOverrides env dorder iorder = sequence (
     [override_string env ''LISTEN_ADDR'' (\<lambda>v c. c\<lparr>cfg_ListenAddr := v\<rparr>),
      override_string env ''SERVER_ADDR'' (\<lambda>v c. c\<lparr>cfg_ServerAddr := v\<rparr>),
      override_parsed env Atoi ''MAX_SESSIONS'' (\<lambda>n c. c\<lparr>cfg_MaxSessions := n\<rparr>),
      override_parsed env Atoi ''MAX_PACKET_SIZE'' (\<lambda>n c. c\<lparr>cfg_MaxPacketSize := n\<rparr>),
      override_string env ''GAME'' (\<lambda>v c. c\<lparr>cfg_Game := v\<rparr>),
      override_parsed env ParseDuration ''AUTO_STOP_DELAY'' (\<lambda>d c. c\<lparr>cfg_AutoStopDelay := d\<rparr>),
      override_string env ''PTERO_BASE_URL'' (\<lambda>v. put_pterodactyl (\<lambda>p. p\<lparr>pc_BaseURL := v\<rparr>)),
      override_string env ''PTERO_API_TOKEN'' (\<lambda>v. put_pterodactyl (\<lambda>p. p\<lparr>pc_APIToken := v\<rparr>)),
      override_string env ''PTERO_SERVER_ID'' (\<lambda>v. put_pterodactyl (\<lambda>p. p\<lparr>pc_ServerID := v\<rparr>)),
      override_string env ''LOG_LEVEL'' (\<lambda>v c. c\<lparr>cfg_LogLevel := v\<rparr>),
      override_parsed env ParseDuration ''IDLE_TIMEOUT'' (\<lambda>d c. c\<lparr>cfg_IdleTimeout := d\<rparr>)]
     @ map (\<lambda>name. override_parsed env ParseDuration name (put_duration name)) dorder
     @ map (\<lambda>name. override_parsed env Atoi name (put_int name)) iorder
     @ [override_string env ''WAKE_POLICY'' (\<lambda>v c. c\<lparr>cfg_WakePolicy := TrimSpace v\<rparr>),
        override_string env ''WAKE_SIGNATURES''
          (\<lambda>v c. c\<lparr>cfg_WakeSignatures := map TrimSpace (Split_comma v)\<rparr>),
        override_bool env ''LOG_UNMATCHED_PREFIXES'' (\<lambda>b c. c\<lparr>cfg_LogUnmatchedPrefixes := b\<rparr>),
        override_string env ''HEALTH_ADDR'' (\<lambda>v c. c\<lparr>cfg_HealthAddr := v\<rparr>),
        override_string env ''BACKEND_READINESS_MODE'' (\<lambda>v c. c\<lparr>cfg_BackendReadinessMode := TrimSpace v\<rparr>),
        override_string env ''BACKEND_READINESS_ADDR'' (\<lambda>v c. c\<lparr>cfg_BackendReadinessAddr := TrimSpace v\<rparr>)])"

section \<open>Loading\<close>

text \<open>
  \<open>yaml_first f c\<close> is the first \<open>Decode\<close> of the file into the configuration (with unknown fields
  refused): its error, the configuration as the decoder leaves it, and the input left;
  \<open>yaml_next\<close> is the second \<open>Decode\<close>: \<open>None\<close> when it finds another document, otherwise its
  error (\<open>EOF\<close> at the end). \<open>open_file\<close> is the content of \<open>config.yaml\<close> or the error of
  \<open>os.Open\<close>, with whether \<open>os.IsNotExist\<close> holds of it.
\<close>

record oslib =
  LookupEnv :: environment
  open_file :: "(goerror \<times> bool) + string"
  yaml_first :: "string \<Rightarrow> config \<Rightarrow> goerror option \<times> config \<times> string"
  yaml_next :: "string \<Rightarrow> goerror option"

definition parseYAML :: "oslib \<Rightarrow> string \<Rightarrow> override" where
  "parseYAML os file cfg =
     (case yaml_first os file cfg of
        (Some err, cfg1, rest) \<Rightarrow> (Some err, cfg1)
      | (None, cfg1, rest) \<Rightarrow>
          (case yaml_next os rest of
             None \<Rightarrow> (Some (ErrText ''multiple YAML documents are not allowed''), cfg1)
           | Some err \<Rightarrow> if \<not> errors_Is (Some err) EOF then (Some err, cfg1) else (None, cfg1)))"

datatype log_level = DebugLevel | InfoLevel | WarnLevel | ErrorLevel | FatalLevel

definition setLogLevel :: "string \<Rightarrow> log_level" where
  "setLogLevel logLevel =
     (if logLevel = ''debug'' then DebugLevel
      else if logLevel = ''warn'' then WarnLevel
      else if logLevel = ''error'' then ErrorLevel
      else if logLevel = ''fatal'' then FatalLevel
      else InfoLevel)"

text \<open>
  The results of \<open>LoadConfig\<close> with its effects: what it printed to the standard output, the
  log level it set, and what it sent to the debug log.
\<close>

record load_result =
  lr_cfg :: config
  lr_err :: "goerror option"
  lr_printed :: "string list"
  lr_level :: "log_level option"
  lr_debug :: "string list"

definition load_failed :: "config \<Rightarrow> goerror \<Rightarrow> string list \<Rightarrow> load_result" where
  "load_failed cfg err out = \<lparr>lr_cfg = cfg, lr_err = Some err, lr_printed = out, lr_level = None, lr_debug = []\<rparr>"

definition load_rest :: "netlib \<Rightarrow> oslib \<Rightarrow> string list \<Rightarrow> string list \<Rightarrow> string list \<Rightarrow> config \<Rightarrow> load_result" where
  "load_rest lib os dorder iorder out cfg =
     (case applyEnvOverrides (LookupEnv os) dorder iorder cfg of
        (Some err, cfg1) \<Rightarrow> load_failed cfg1 err out
      | (None, cfg1) \<Rightarrow>
          (case Validate lib cfg1 of
             Some err \<Rightarrow> load_failed cfg1 (Wrap ''invalid configuration'' err) out
           | None \<Rightarrow> \<lparr>lr_cfg = cfg1, lr_err = None, lr_printed = out,
                       lr_level = Some (setLogLevel (cfg_LogLevel cfg1)),
                       lr_debug = [''Final config: '' @ RedactedString cfg1]\<rparr>))"

definition LoadConfig :: "netlib \<Rightarrow> oslib \<Rightarrow> string list \<Rightarrow> string list \<Rightarrow> load_result" where
  "LoadConfig lib os dorder iorder =
     (case open_file os of
        Inr file \<Rightarrow>
          (case parseYAML os file DefaultConfig of
             (Some err, cfg) \<Rightarrow> load_failed cfg (ErrText ''could not parse config.yaml'') []
           | (None, cfg) \<Rightarrow> load_rest lib os dorder iorder [] cfg)
      | Inl (err, not_exist) \<Rightarrow>
          load_rest lib os dorder iorder
            (if \<not> not_exist then [''Config does not exist config.yaml''] else []) DefaultConfig)"

section \<open>What the overrides compute\<close>

text \<open>
  The result stated field by field: the value of the variable, read, where it is set, and
  the field as it was where it is not.
\<close>

definition value_of :: "(goerror + 'v) \<Rightarrow> 'v option" where
  "value_of r = (case r of Inl _ \<Rightarrow> None | Inr v \<Rightarrow> Some v)"

definition read_bool :: "string \<Rightarrow> bool option" where
  "read_bool val = (if val = ''true'' then Some True else if val = ''false'' then Some False else None)"

definition from_env :: "environment \<Rightarrow> string \<Rightarrow> (string \<Rightarrow> 'v option) \<Rightarrow> 'v \<Rightarrow> 'v" where
  "from_env env name read old =
     (case env name of None \<Rightarrow> old | Some val \<Rightarrow> (case read val of None \<Rightarrow> old | Some v \<Rightarrow> v))"

definition well_formed :: "environment \<Rightarrow> string \<Rightarrow> (string \<Rightarrow> 'v option) \<Rightarrow> bool" where
  "well_formed env name read = (case env name of None \<Rightarrow> True | Some val \<Rightarrow> read val \<noteq> None)"

definition read_int :: "string \<Rightarrow> int option" where "read_int s = value_of (Atoi s)"
definition read_duration :: "string \<Rightarrow> duration option" where "read_duration s = value_of (ParseDuration s)"

definition typed_names :: "string list" where
  "typed_names = [''MAX_SESSIONS'', ''MAX_PACKET_SIZE'', ''AUTO_STOP_DELAY'', ''IDLE_TIMEOUT'']
     @ duration_names @ int_names @ [''LOG_UNMATCHED_PREFIXES'']"

text \<open>A typed variable that is set to text its parser refuses.\<close>

definition malformed :: "environment \<Rightarrow> string \<Rightarrow> bool" where
  "malformed env name \<longleftrightarrow> List.member typed_names name \<and>
     \<not> (if name = ''LOG_UNMATCHED_PREFIXES'' then well_formed env name read_bool
         else if List.member (''AUTO_STOP_DELAY'' # ''IDLE_TIMEOUT'' # duration_names) name
              then well_formed env name read_duration
         else well_formed env name read_int)"

definition env_ok :: "environment \<Rightarrow> bool" where
  "env_ok env \<longleftrightarrow> list_all (\<lambda>name. \<not> malformed env name) typed_names"

definition env_config :: "environment \<Rightarrow> config \<Rightarrow> config" where
  "env_config env c = \<lparr>
     cfg_ListenAddr = from_env env ''LISTEN_ADDR'' Some (cfg_ListenAddr c),
     cfg_ServerAddr = from_env env ''SERVER_ADDR'' Some (cfg_ServerAddr c),
     cfg_MaxSessions = from_env env ''MAX_SESSIONS'' read_int (cfg_MaxSessions c),
     cfg_MaxPacketSize = from_env env ''MAX_PACKET_SIZE'' read_int (cfg_MaxPacketSize c),
     cfg_Game = from_env env ''GAME'' Some (cfg_Game c),
     cfg_AutoStopDelay = from_env env ''AUTO_STOP_DELAY'' read_duration (cfg_AutoStopDelay c),
     cfg_IdleTimeout = from_env env ''IDLE_TIMEOUT'' read_duration (cfg_IdleTimeout c),
     cfg_StartupTimeout = from_env env ''STARTUP_TIMEOUT'' read_duration (cfg_StartupTimeout c),
     cfg_StartupPollInterval = from_env env ''STARTUP_POLL_INTERVAL'' read_duration (cfg_StartupPollInterval c),
     cfg_StartupSettleDelay = from_env env ''STARTUP_SETTLE_DELAY'' read_duration (cfg_StartupSettleDelay c),
     cfg_StartupBufferPackets = from_env env ''STARTUP_BUFFER_PACKETS'' read_int (cfg_StartupBufferPackets c),
     cfg_StartupBufferBytesPerSession =
       from_env env ''STARTUP_BUFFER_BYTES_PER_SESSION'' read_int (cfg_StartupBufferBytesPerSession c),
     cfg_StartupBufferBytesGlobal =
       from_env env ''STARTUP_BUFFER_BYTES_GLOBAL'' read_int (cfg_StartupBufferBytesGlobal c),
     cfg_WakePolicy = from_env env ''WAKE_POLICY'' (\<lambda>v. Some (TrimSpace v)) (cfg_WakePolicy c),
     cfg_WakeSignatures =
       from_env env ''WAKE_SIGNATURES'' (\<lambda>v. Some (map TrimSpace (Split_comma v))) (cfg_WakeSignatures c),
     cfg_LogUnmatchedPrefixes = from_env env ''LOG_UNMATCHED_PREFIXES'' read_bool (cfg_LogUnmatchedPrefixes c),
     cfg_DiagnosticPrefixBytes = from_env env ''DIAGNOSTIC_PREFIX_BYTES'' read_int (cfg_DiagnosticPrefixBytes c),
     cfg_HealthAddr = from_env env ''HEALTH_ADDR'' Some (cfg_HealthAddr c),
     cfg_BackendReadinessMode =
       from_env env ''BACKEND_READINESS_MODE'' (\<lambda>v. Some (TrimSpace v)) (cfg_BackendReadinessMode c),
     cfg_BackendReadinessAddr =
       from_env env ''BACKEND_READINESS_ADDR'' (\<lambda>v. Some (TrimSpace v)) (cfg_BackendReadinessAddr c),
     cfg_Pterodactyl = \<lparr>
       pc_BaseURL = from_env env ''PTERO_BASE_URL'' Some (pc_BaseURL (cfg_Pterodactyl c)),
       pc_APIToken = from_env env ''PTERO_API_TOKEN'' Some (pc_APIToken (cfg_Pterodactyl c)),
       pc_ServerID = from_env env ''PTERO_SERVER_ID'' Some (pc_ServerID (cfg_Pterodactyl c))\<rparr>,
     cfg_LogLevel = from_env env ''LOG_LEVEL'' Some (cfg_LogLevel c)\<rparr>"

text \<open>
  Each statement as a pair: whether it fails, and the update it makes. A sequence succeeds
  exactly when none of its statements fails, and then composes the updates.
\<close>

definition step_is :: "override \<Rightarrow> goerror option \<Rightarrow> (config \<Rightarrow> config) \<Rightarrow> bool" where
  "step_is f err upd \<longleftrightarrow> (\<forall>c. f c = (err, if err = None then upd c else c))"

lemma sequence_append:
  "sequence (fs @ gs) c = (case sequence fs c of (Some e, c1) \<Rightarrow> (Some e, c1) | (None, c1) \<Rightarrow> sequence gs c1)"
  by (induction fs arbitrary: c) (auto split: prod.split option.split)

lemma sequence_steps:
  assumes "list_all2 (\<lambda>f (err, upd). step_is f err upd) fs us"
  shows "if list_all (\<lambda>u. fst u = None) us then sequence fs c = (None, fold snd us c)
         else \<exists>e c1. sequence fs c = (Some e, c1) \<and> Some e \<in> fst ` set us"
  using assms
proof (induction fs us arbitrary: c rule: list_all2_induct)
  case (Cons f fs u us)
  then show ?case by (cases u; cases "fst u") (force simp: step_is_def)+
qed simp

definition parse_error :: "environment \<Rightarrow> (string \<Rightarrow> goerror + 'v) \<Rightarrow> string \<Rightarrow> goerror option" where
  "parse_error env parse name =
     (case env name of
        None \<Rightarrow> None
      | Some val \<Rightarrow> (case parse val of Inl e \<Rightarrow> Some (Wrap (''invalid '' @ name) e) | Inr _ \<Rightarrow> None))"

definition bool_error :: "environment \<Rightarrow> string \<Rightarrow> goerror option" where
  "bool_error env name =
     (if well_formed env name read_bool then None else Some (ErrText (''invalid '' @ name)))"

definition env_update :: "environment \<Rightarrow> (string \<Rightarrow> 'v option) \<Rightarrow> string \<Rightarrow> ('v \<Rightarrow> config \<Rightarrow> config) \<Rightarrow> config \<Rightarrow> config" where
  "env_update env read name put c =
     (case env name of None \<Rightarrow> c | Some val \<Rightarrow> (case read val of None \<Rightarrow> c | Some v \<Rightarrow> put v c))"

lemma step_string: "step_is (override_string env name put) None (env_update env Some name put)"
  by (simp add: step_is_def override_string_def env_update_def split: option.split)

lemma step_trimmed:
  "step_is (override_string env name (\<lambda>v. put (h v))) None (env_update env (\<lambda>v. Some (h v)) name put)"
  by (simp add: step_is_def override_string_def env_update_def split: option.split)

lemma step_parsed:
  "step_is (override_parsed env parse name put) (parse_error env parse name)
     (env_update env (\<lambda>v. value_of (parse v)) name put)"
  by (auto simp: step_is_def override_parsed_def parse_error_def env_update_def value_of_def
      split: option.split sum.split)

lemma step_bool:
  "step_is (override_bool env name put) (bool_error env name) (env_update env read_bool name put)"
  by (auto simp: step_is_def override_bool_def bool_error_def env_update_def well_formed_def read_bool_def
      split: option.split)

lemma parse_error_None:
  "parse_error env parse name = None \<longleftrightarrow> well_formed env name (\<lambda>v. value_of (parse v))"
  by (auto simp: parse_error_def well_formed_def value_of_def split: option.split sum.split)

lemma parse_error_name:
  "parse_error env parse name = Some e \<Longrightarrow> \<exists>e1. e = Wrap (''invalid '' @ name) e1"
  by (auto simp: parse_error_def split: option.splits sum.splits)

text \<open>The statements of \<open>applyEnvOverrides\<close>, in this form.\<close>

definition duration_steps :: "environment \<Rightarrow> string list \<Rightarrow> (goerror option \<times> (config \<Rightarrow> config)) list" where
  "duration_steps env names = map (\<lambda>name. (parse_error env ParseDuration name,
     env_update env (\<lambda>v. value_of (ParseDuration v)) name (put_duration name))) names"

definition int_steps :: "environment \<Rightarrow> string list \<Rightarrow> (goerror option \<times> (config \<Rightarrow> config)) list" where
  "int_steps env names = map (\<lambda>name. (parse_error env Atoi name,
     env_update env (\<lambda>v. value_of (Atoi v)) name (put_int name))) names"

definition first_steps :: "environment \<Rightarrow> (goerror option \<times> (config \<Rightarrow> config)) list" where
  "first_steps env =
     [(None, env_update env Some ''LISTEN_ADDR'' (\<lambda>v c. c\<lparr>cfg_ListenAddr := v\<rparr>)),
      (None, env_update env Some ''SERVER_ADDR'' (\<lambda>v c. c\<lparr>cfg_ServerAddr := v\<rparr>)),
      (parse_error env Atoi ''MAX_SESSIONS'',
        env_update env (\<lambda>v. value_of (Atoi v)) ''MAX_SESSIONS'' (\<lambda>n c. c\<lparr>cfg_MaxSessions := n\<rparr>)),
      (parse_error env Atoi ''MAX_PACKET_SIZE'',
        env_update env (\<lambda>v. value_of (Atoi v)) ''MAX_PACKET_SIZE'' (\<lambda>n c. c\<lparr>cfg_MaxPacketSize := n\<rparr>)),
      (None, env_update env Some ''GAME'' (\<lambda>v c. c\<lparr>cfg_Game := v\<rparr>)),
      (parse_error env ParseDuration ''AUTO_STOP_DELAY'',
        env_update env (\<lambda>v. value_of (ParseDuration v)) ''AUTO_STOP_DELAY'' (\<lambda>d c. c\<lparr>cfg_AutoStopDelay := d\<rparr>)),
      (None, env_update env Some ''PTERO_BASE_URL'' (\<lambda>v. put_pterodactyl (\<lambda>p. p\<lparr>pc_BaseURL := v\<rparr>))),
      (None, env_update env Some ''PTERO_API_TOKEN'' (\<lambda>v. put_pterodactyl (\<lambda>p. p\<lparr>pc_APIToken := v\<rparr>))),
      (None, env_update env Some ''PTERO_SERVER_ID'' (\<lambda>v. put_pterodactyl (\<lambda>p. p\<lparr>pc_ServerID := v\<rparr>))),
      (None, env_update env Some ''LOG_LEVEL'' (\<lambda>v c. c\<lparr>cfg_LogLevel := v\<rparr>)),
      (parse_error env ParseDuration ''IDLE_TIMEOUT'',
        env_update env (\<lambda>v. value_of (ParseDuration v)) ''IDLE_TIMEOUT'' (\<lambda>d c. c\<lparr>cfg_IdleTimeout := d\<rparr>))]"

definition last_steps :: "environment \<Rightarrow> (goerror option \<times> (config \<Rightarrow> config)) list" where
  "last_steps env =
     [(None, env_update env (\<lambda>v. Some (TrimSpace v)) ''WAKE_POLICY'' (\<lambda>v c. c\<lparr>cfg_WakePolicy := v\<rparr>)),
      (None, env_update env (\<lambda>v. Some (map TrimSpace (Split_comma v))) ''WAKE_SIGNATURES''
        (\<lambda>v c. c\<lparr>cfg_WakeSignatures := v\<rparr>)),
      (bool_error env ''LOG_UNMATCHED_PREFIXES'',
        env_update env read_bool ''LOG_UNMATCHED_PREFIXES'' (\<lambda>b c. c\<lparr>cfg_LogUnmatchedPrefixes := b\<rparr>)),
      (None, env_update env Some ''HEALTH_ADDR'' (\<lambda>v c. c\<lparr>cfg_HealthAddr := v\<rparr>)),
      (None, env_update env (\<lambda>v. Some (TrimSpace v)) ''BACKEND_READINESS_MODE''
        (\<lambda>v c. c\<lparr>cfg_BackendReadinessMode := v\<rparr>)),
      (None, env_update env (\<lambda>v. Some (TrimSpace v)) ''BACKEND_READINESS_ADDR''
        (\<lambda>v c. c\<lparr>cfg_BackendReadinessAddr := v\<rparr>))]"

definition all_steps :: "environment \<Rightarrow> string list \<Rightarrow> string list \<Rightarrow> (goerror option \<times> (config \<Rightarrow> config)) list" where
  "all_steps env dorder iorder = first_steps env @ duration_steps env dorder @ int_steps env iorder @ last_steps env"

lemma applyEnvOverrides_steps:
  "if list_all (\<lambda>u. fst u = None) (all_steps env d i)
   then applyEnvOverrides env d i c = (None, fold snd (all_steps env d i) c)
   else \<exists>e c1. applyEnvOverrides env d i c = (Some e, c1) \<and> Some e \<in> fst ` set (all_steps env d i)"
  unfolding applyEnvOverrides_def all_steps_def
  by (rule sequence_steps)
    (simp add: first_steps_def duration_steps_def int_steps_def last_steps_def list_all2_append
      list_all2_map1 list_all2_map2 list_all2_refl step_string step_parsed step_bool step_trimmed
      step_trimmed [of _ _ "\<lambda>v c. c\<lparr>cfg_WakePolicy := v\<rparr>" TrimSpace]
      step_trimmed [of _ _ "\<lambda>v c. c\<lparr>cfg_BackendReadinessMode := v\<rparr>" TrimSpace]
      step_trimmed [of _ _ "\<lambda>v c. c\<lparr>cfg_BackendReadinessAddr := v\<rparr>" TrimSpace]
      step_trimmed [of _ _ "\<lambda>v c. c\<lparr>cfg_WakeSignatures := v\<rparr>" "\<lambda>v. map TrimSpace (Split_comma v)"])

text \<open>The updates of a loop commute, so its order does not matter.\<close>

lemma put_duration_fields:
  "put_duration name d c = c\<lparr>
     cfg_StartupTimeout := if name = ''STARTUP_TIMEOUT'' then d else cfg_StartupTimeout c,
     cfg_StartupPollInterval := if name = ''STARTUP_POLL_INTERVAL'' then d else cfg_StartupPollInterval c,
     cfg_StartupSettleDelay := if name = ''STARTUP_SETTLE_DELAY'' then d else cfg_StartupSettleDelay c\<rparr>"
  by (cases c) (simp add: put_duration_def)

lemma put_duration_commute:
  "put_duration m x (put_duration n y c) = put_duration n y (put_duration m x c) \<or> m = n"
  by (rule disjCI, rule config.equality, simp_all add: put_duration_fields) blast+

lemma put_int_fields:
  "put_int name d c = c\<lparr>
     cfg_StartupBufferPackets := if name = ''STARTUP_BUFFER_PACKETS'' then d else cfg_StartupBufferPackets c,
     cfg_StartupBufferBytesPerSession :=
       if name = ''STARTUP_BUFFER_BYTES_PER_SESSION'' then d else cfg_StartupBufferBytesPerSession c,
     cfg_StartupBufferBytesGlobal :=
       if name = ''STARTUP_BUFFER_BYTES_GLOBAL'' then d else cfg_StartupBufferBytesGlobal c,
     cfg_DiagnosticPrefixBytes := if name = ''DIAGNOSTIC_PREFIX_BYTES'' then d else cfg_DiagnosticPrefixBytes c\<rparr>"
  by (cases c) (simp add: put_int_def)

lemma put_int_commute: "put_int m x (put_int n y c) = put_int n y (put_int m x c) \<or> m = n"
  by (rule disjCI, rule config.equality, simp_all add: put_int_fields) blast+

lemma env_update_commute:
  assumes "\<And>x y c. put m x (put n y c) = put n y (put m x c) \<or> m = n"
  shows "env_update env read m (put m) \<circ> env_update env read n (put n)
       = env_update env read n (put n) \<circ> env_update env read m (put m)"
proof (cases "m = n")
  case False
  then have "put m x (put n y c) = put n y (put m x c)" for x y c using assms by blast
  then show ?thesis by (auto simp: env_update_def fun_eq_iff split: option.split)
qed simp

lemma fold_steps:
  "fold snd (map (\<lambda>n. (e n, u n)) ns) c = fold u ns c"
  by (induction ns arbitrary: c) auto

lemma duration_order:
  "mset d = mset duration_names \<Longrightarrow> fold snd (duration_steps env d) = fold snd (duration_steps env duration_names)"
  unfolding duration_steps_def fold_steps [abs_def] fun_eq_iff
  by (intro allI fun_cong [OF fold_multiset_equiv] env_update_commute put_duration_commute)

lemma int_order:
  "mset i = mset int_names \<Longrightarrow> fold snd (int_steps env i) = fold snd (int_steps env int_names)"
  unfolding int_steps_def fold_steps [abs_def] fun_eq_iff
  by (intro allI fun_cong [OF fold_multiset_equiv] env_update_commute put_int_commute)

text \<open>A step on one field, as an unconditional update of that field.\<close>

lemma env_update_field:
  assumes "\<And>c. upd (\<lambda>_. get c) c = c"
  shows "env_update env read name (\<lambda>v. upd (\<lambda>_. v)) c = upd (\<lambda>_. from_env env name read (get c)) c"
  using assms by (simp add: env_update_def from_env_def split: option.split)

lemma env_updates:
  "env_update env rs name (\<lambda>v c. c\<lparr>cfg_ListenAddr := v\<rparr>) c = c\<lparr>cfg_ListenAddr := from_env env name rs (cfg_ListenAddr c)\<rparr>"
  "env_update env rs name (\<lambda>v c. c\<lparr>cfg_ServerAddr := v\<rparr>) c = c\<lparr>cfg_ServerAddr := from_env env name rs (cfg_ServerAddr c)\<rparr>"
  "env_update env ri name (\<lambda>v c. c\<lparr>cfg_MaxSessions := v\<rparr>) c = c\<lparr>cfg_MaxSessions := from_env env name ri (cfg_MaxSessions c)\<rparr>"
  "env_update env ri name (\<lambda>v c. c\<lparr>cfg_MaxPacketSize := v\<rparr>) c = c\<lparr>cfg_MaxPacketSize := from_env env name ri (cfg_MaxPacketSize c)\<rparr>"
  "env_update env rs name (\<lambda>v c. c\<lparr>cfg_Game := v\<rparr>) c = c\<lparr>cfg_Game := from_env env name rs (cfg_Game c)\<rparr>"
  "env_update env ri name (\<lambda>v c. c\<lparr>cfg_AutoStopDelay := v\<rparr>) c = c\<lparr>cfg_AutoStopDelay := from_env env name ri (cfg_AutoStopDelay c)\<rparr>"
  "env_update env ri name (\<lambda>v c. c\<lparr>cfg_IdleTimeout := v\<rparr>) c = c\<lparr>cfg_IdleTimeout := from_env env name ri (cfg_IdleTimeout c)\<rparr>"
  "env_update env rs name (\<lambda>v c. c\<lparr>cfg_LogLevel := v\<rparr>) c = c\<lparr>cfg_LogLevel := from_env env name rs (cfg_LogLevel c)\<rparr>"
  "env_update env rs name (\<lambda>v c. c\<lparr>cfg_WakePolicy := v\<rparr>) c = c\<lparr>cfg_WakePolicy := from_env env name rs (cfg_WakePolicy c)\<rparr>"
  "env_update env rl name (\<lambda>v c. c\<lparr>cfg_WakeSignatures := v\<rparr>) c = c\<lparr>cfg_WakeSignatures := from_env env name rl (cfg_WakeSignatures c)\<rparr>"
  "env_update env rb name (\<lambda>v c. c\<lparr>cfg_LogUnmatchedPrefixes := v\<rparr>) c = c\<lparr>cfg_LogUnmatchedPrefixes := from_env env name rb (cfg_LogUnmatchedPrefixes c)\<rparr>"
  "env_update env rs name (\<lambda>v c. c\<lparr>cfg_HealthAddr := v\<rparr>) c = c\<lparr>cfg_HealthAddr := from_env env name rs (cfg_HealthAddr c)\<rparr>"
  "env_update env rs name (\<lambda>v c. c\<lparr>cfg_BackendReadinessMode := v\<rparr>) c = c\<lparr>cfg_BackendReadinessMode := from_env env name rs (cfg_BackendReadinessMode c)\<rparr>"
  "env_update env rs name (\<lambda>v c. c\<lparr>cfg_BackendReadinessAddr := v\<rparr>) c = c\<lparr>cfg_BackendReadinessAddr := from_env env name rs (cfg_BackendReadinessAddr c)\<rparr>"
  by (simp_all add: env_update_def from_env_def split: option.split)

lemma env_updates_pterodactyl:
  "env_update env rs name (\<lambda>v. put_pterodactyl (\<lambda>p. p\<lparr>pc_BaseURL := v\<rparr>)) c
     = c\<lparr>cfg_Pterodactyl := (cfg_Pterodactyl c)\<lparr>pc_BaseURL := from_env env name rs (pc_BaseURL (cfg_Pterodactyl c))\<rparr>\<rparr>"
  "env_update env rs name (\<lambda>v. put_pterodactyl (\<lambda>p. p\<lparr>pc_APIToken := v\<rparr>)) c
     = c\<lparr>cfg_Pterodactyl := (cfg_Pterodactyl c)\<lparr>pc_APIToken := from_env env name rs (pc_APIToken (cfg_Pterodactyl c))\<rparr>\<rparr>"
  "env_update env rs name (\<lambda>v. put_pterodactyl (\<lambda>p. p\<lparr>pc_ServerID := v\<rparr>)) c
     = c\<lparr>cfg_Pterodactyl := (cfg_Pterodactyl c)\<lparr>pc_ServerID := from_env env name rs (pc_ServerID (cfg_Pterodactyl c))\<rparr>\<rparr>"
  by (simp_all add: env_update_def from_env_def put_pterodactyl_def split: option.split)

lemma env_updates_loops:
  "env_update env ri name (put_duration ''STARTUP_TIMEOUT'') c = c\<lparr>cfg_StartupTimeout := from_env env name ri (cfg_StartupTimeout c)\<rparr>"
  "env_update env ri name (put_duration ''STARTUP_POLL_INTERVAL'') c
     = c\<lparr>cfg_StartupPollInterval := from_env env name ri (cfg_StartupPollInterval c)\<rparr>"
  "env_update env ri name (put_duration ''STARTUP_SETTLE_DELAY'') c
     = c\<lparr>cfg_StartupSettleDelay := from_env env name ri (cfg_StartupSettleDelay c)\<rparr>"
  "env_update env ri name (put_int ''STARTUP_BUFFER_PACKETS'') c
     = c\<lparr>cfg_StartupBufferPackets := from_env env name ri (cfg_StartupBufferPackets c)\<rparr>"
  "env_update env ri name (put_int ''STARTUP_BUFFER_BYTES_PER_SESSION'') c
     = c\<lparr>cfg_StartupBufferBytesPerSession := from_env env name ri (cfg_StartupBufferBytesPerSession c)\<rparr>"
  "env_update env ri name (put_int ''STARTUP_BUFFER_BYTES_GLOBAL'') c
     = c\<lparr>cfg_StartupBufferBytesGlobal := from_env env name ri (cfg_StartupBufferBytesGlobal c)\<rparr>"
  "env_update env ri name (put_int ''DIAGNOSTIC_PREFIX_BYTES'') c
     = c\<lparr>cfg_DiagnosticPrefixBytes := from_env env name ri (cfg_DiagnosticPrefixBytes c)\<rparr>"
  by (simp_all add: env_update_def from_env_def put_duration_def put_int_def split: option.split)

lemma all_steps_config:
  assumes "mset d = mset duration_names" "mset i = mset int_names"
  shows "fold snd (all_steps env d i) c = env_config env c"
proof -
  have "fold snd (all_steps env d i) c = fold snd (all_steps env duration_names int_names) c"
    by (simp add: all_steps_def duration_order [OF assms(1)] int_order [OF assms(2)])
  also have "\<dots> = env_config env c"
    by (cases c) (simp add: all_steps_def first_steps_def duration_steps_def int_steps_def last_steps_def
        duration_names_def int_names_def env_updates env_updates_pterodactyl env_updates_loops
        env_config_def read_int_def [abs_def] read_duration_def [abs_def])
  finally show ?thesis .
qed

lemma typed_names_eq:
  "typed_names = [''MAX_SESSIONS'', ''MAX_PACKET_SIZE'', ''AUTO_STOP_DELAY'', ''IDLE_TIMEOUT'',
     ''STARTUP_TIMEOUT'', ''STARTUP_POLL_INTERVAL'', ''STARTUP_SETTLE_DELAY'', ''STARTUP_BUFFER_PACKETS'',
     ''STARTUP_BUFFER_BYTES_PER_SESSION'', ''STARTUP_BUFFER_BYTES_GLOBAL'', ''DIAGNOSTIC_PREFIX_BYTES'',
     ''LOG_UNMATCHED_PREFIXES'']"
  by (simp add: typed_names_def duration_names_def int_names_def)

lemma malformed_names:
  "malformed env ''MAX_SESSIONS'' \<longleftrightarrow> \<not> well_formed env ''MAX_SESSIONS'' read_int"
  "malformed env ''MAX_PACKET_SIZE'' \<longleftrightarrow> \<not> well_formed env ''MAX_PACKET_SIZE'' read_int"
  "malformed env ''AUTO_STOP_DELAY'' \<longleftrightarrow> \<not> well_formed env ''AUTO_STOP_DELAY'' read_duration"
  "malformed env ''IDLE_TIMEOUT'' \<longleftrightarrow> \<not> well_formed env ''IDLE_TIMEOUT'' read_duration"
  "malformed env ''LOG_UNMATCHED_PREFIXES'' \<longleftrightarrow> \<not> well_formed env ''LOG_UNMATCHED_PREFIXES'' read_bool"
  by (simp_all add: malformed_def typed_names_eq duration_names_def)

lemma malformed_loops:
  "n \<in> set duration_names \<Longrightarrow> malformed env n \<longleftrightarrow> \<not> well_formed env n read_duration"
  "n \<in> set int_names \<Longrightarrow> malformed env n \<longleftrightarrow> \<not> well_formed env n read_int"
  by (auto simp: malformed_def typed_names_eq duration_names_def int_names_def)

text \<open>The errors of the statements are exactly the malformed variables.\<close>

lemma parse_error_read:
  "parse_error env Atoi n = None \<longleftrightarrow> well_formed env n read_int"
  "parse_error env ParseDuration n = None \<longleftrightarrow> well_formed env n read_duration"
  by (simp_all add: parse_error_None read_int_def [abs_def] read_duration_def [abs_def])

lemma all_steps_ok:
  assumes "mset d = mset duration_names" "mset i = mset int_names"
  shows "list_all (\<lambda>u. fst u = None) (all_steps env d i) \<longleftrightarrow> env_ok env"
proof -
  have "set d = set duration_names" "set i = set int_names"
    using assms mset_eq_setD by blast+
  then have "list_all (\<lambda>u. fst u = None) (all_steps env d i) \<longleftrightarrow>
      well_formed env ''MAX_SESSIONS'' read_int \<and> well_formed env ''MAX_PACKET_SIZE'' read_int
    \<and> well_formed env ''AUTO_STOP_DELAY'' read_duration \<and> well_formed env ''IDLE_TIMEOUT'' read_duration
    \<and> (\<forall>n \<in> set duration_names. well_formed env n read_duration) \<and> (\<forall>n \<in> set int_names. well_formed env n read_int)
    \<and> well_formed env ''LOG_UNMATCHED_PREFIXES'' read_bool"
    by (simp add: all_steps_def first_steps_def duration_steps_def int_steps_def last_steps_def list_all_iff
        ball_Un parse_error_read bool_error_def)
  also have "\<dots> \<longleftrightarrow> env_ok env"
    by (simp add: env_ok_def typed_names_def list_all_append malformed_names)
      (simp add: list_all_iff malformed_loops)
  finally show ?thesis .
qed

definition names_variable :: "goerror \<Rightarrow> string \<Rightarrow> bool" where
  "names_variable e name \<longleftrightarrow> e = ErrText (''invalid '' @ name) \<or> (\<exists>e1. e = Wrap (''invalid '' @ name) e1)"

lemma parse_error_malformed:
  assumes "parse_error env parse n = Some e" "malformed env n \<longleftrightarrow> parse_error env parse n \<noteq> None"
  shows "\<exists>name. malformed env name \<and> names_variable e name"
  using assms parse_error_name [OF assms(1)] by (auto simp: names_variable_def)

lemma all_steps_error:
  assumes "mset d = mset duration_names" "mset i = mset int_names" "Some e \<in> fst ` set (all_steps env d i)"
  shows "\<exists>name. malformed env name \<and> names_variable e name"
proof -
  have sets: "set d = set duration_names" "set i = set int_names"
    using assms mset_eq_setD by blast+
  have bool: "bool_error env ''LOG_UNMATCHED_PREFIXES'' = Some e \<Longrightarrow> ?thesis"
    by (auto simp: bool_error_def names_variable_def malformed_names split: if_splits)
  have loops: "n \<in> set duration_names \<Longrightarrow> parse_error env ParseDuration n = Some e \<Longrightarrow> ?thesis"
    "n \<in> set int_names \<Longrightarrow> parse_error env Atoi n = Some e \<Longrightarrow> ?thesis" for n
    by (erule parse_error_malformed, simp add: malformed_loops parse_error_read)+
  have singles: "parse_error env Atoi ''MAX_SESSIONS'' = Some e \<Longrightarrow> ?thesis"
    "parse_error env Atoi ''MAX_PACKET_SIZE'' = Some e \<Longrightarrow> ?thesis"
    "parse_error env ParseDuration ''AUTO_STOP_DELAY'' = Some e \<Longrightarrow> ?thesis"
    "parse_error env ParseDuration ''IDLE_TIMEOUT'' = Some e \<Longrightarrow> ?thesis"
    by (erule parse_error_malformed, simp add: malformed_names parse_error_read)+
  from assms(3) consider "Some e \<in> fst ` set (first_steps env)" | "Some e \<in> fst ` set (duration_steps env d)"
    | "Some e \<in> fst ` set (int_steps env i)" | "Some e \<in> fst ` set (last_steps env)"
    by (auto simp: all_steps_def)
  then show ?thesis
  proof cases
    case 1
    then have "parse_error env Atoi ''MAX_SESSIONS'' = Some e \<or> parse_error env Atoi ''MAX_PACKET_SIZE'' = Some e
      \<or> parse_error env ParseDuration ''AUTO_STOP_DELAY'' = Some e \<or> parse_error env ParseDuration ''IDLE_TIMEOUT'' = Some e"
      by (simp add: first_steps_def eq_commute [of "Some e"])
    then show ?thesis using singles by blast
  next
    case 2
    then show ?thesis using loops(1) sets by (force simp: duration_steps_def)
  next
    case 3
    then show ?thesis using loops(2) sets by (force simp: int_steps_def)
  next
    case 4
    then show ?thesis using bool by (simp add: last_steps_def eq_commute [of "Some e"])
  qed
qed

section \<open>Properties\<close>

text \<open>
  C23: The overrides compute exactly the stated configuration: when every typed variable that
  is set is well-formed the function succeeds, each field is the value of its variable if
  that is set and its old value otherwise; when some are malformed it fails and the error
  names one of them. This holds for every order in which the loops visit their maps.
\<close>

theorem applyEnvOverrides_exact:
  assumes "mset d = mset duration_names" "mset i = mset int_names"
  shows "if env_ok env then applyEnvOverrides env d i c = (None, env_config env c)
         else \<exists>e c1 name. applyEnvOverrides env d i c = (Some e, c1) \<and> malformed env name \<and> names_variable e name"
  using applyEnvOverrides_steps [of env d i c] all_steps_error [OF assms]
  unfolding all_steps_ok [OF assms] all_steps_config [OF assms] by (cases "env_ok env") (simp, metis)

theorem applyEnvOverrides_exact_witness:
  "applyEnvOverrides (\<lambda>n. if n = ''MAX_SESSIONS'' then Some ''four'' else None) (rev duration_names) int_names DefaultConfig
     \<noteq> (None, DefaultConfig)"
proof -
  have "\<not> env_ok (\<lambda>n. if n = ''MAX_SESSIONS'' then Some ''four'' else None)"
    by (simp add: env_ok_def typed_names_eq malformed_names well_formed_def read_int_def value_of_def Atoi_def
        digit_value.simps)
  then show ?thesis
    using applyEnvOverrides_exact [of "rev duration_names" int_names
        "\<lambda>n. if n = ''MAX_SESSIONS'' then Some ''four'' else None" DefaultConfig] by auto
qed

text \<open>
  The environment that spells out a configuration, every variable set: numbers in decimal,
  durations as \<open>Duration.String\<close> prints them, the signatures joined by commas.
\<close>

definition env_of :: "config \<Rightarrow> environment" where
  "env_of c = map_of
     [(''LISTEN_ADDR'', cfg_ListenAddr c), (''SERVER_ADDR'', cfg_ServerAddr c),
      (''MAX_SESSIONS'', print_int (cfg_MaxSessions c)), (''MAX_PACKET_SIZE'', print_int (cfg_MaxPacketSize c)),
      (''GAME'', cfg_Game c), (''AUTO_STOP_DELAY'', Duration_String (cfg_AutoStopDelay c)),
      (''PTERO_BASE_URL'', pc_BaseURL (cfg_Pterodactyl c)), (''PTERO_API_TOKEN'', pc_APIToken (cfg_Pterodactyl c)),
      (''PTERO_SERVER_ID'', pc_ServerID (cfg_Pterodactyl c)), (''LOG_LEVEL'', cfg_LogLevel c),
      (''IDLE_TIMEOUT'', Duration_String (cfg_IdleTimeout c)),
      (''STARTUP_TIMEOUT'', Duration_String (cfg_StartupTimeout c)),
      (''STARTUP_POLL_INTERVAL'', Duration_String (cfg_StartupPollInterval c)),
      (''STARTUP_SETTLE_DELAY'', Duration_String (cfg_StartupSettleDelay c)),
      (''STARTUP_BUFFER_PACKETS'', print_int (cfg_StartupBufferPackets c)),
      (''STARTUP_BUFFER_BYTES_PER_SESSION'', print_int (cfg_StartupBufferBytesPerSession c)),
      (''STARTUP_BUFFER_BYTES_GLOBAL'', print_int (cfg_StartupBufferBytesGlobal c)),
      (''DIAGNOSTIC_PREFIX_BYTES'', print_int (cfg_DiagnosticPrefixBytes c)),
      (''WAKE_POLICY'', cfg_WakePolicy c), (''WAKE_SIGNATURES'', Join_comma (cfg_WakeSignatures c)),
      (''LOG_UNMATCHED_PREFIXES'', print_bool (cfg_LogUnmatchedPrefixes c)),
      (''HEALTH_ADDR'', cfg_HealthAddr c), (''BACKEND_READINESS_MODE'', cfg_BackendReadinessMode c),
      (''BACKEND_READINESS_ADDR'', cfg_BackendReadinessAddr c)]"

definition int64_fits :: "int \<Rightarrow> bool" where
  "int64_fits v \<longleftrightarrow> min_int64 \<le> v \<and> v \<le> max_int64"

definition trimmed :: "string \<Rightarrow> bool" where
  "trimmed s \<longleftrightarrow> TrimSpace s = s"

text \<open>What the environment can express: machine integers, and strings without outer spaces.\<close>

definition expressible :: "config \<Rightarrow> bool" where
  "expressible c \<longleftrightarrow>
     list_all int64_fits [cfg_MaxSessions c, cfg_MaxPacketSize c, cfg_AutoStopDelay c, cfg_IdleTimeout c,
       cfg_StartupTimeout c, cfg_StartupPollInterval c, cfg_StartupSettleDelay c, cfg_StartupBufferPackets c,
       cfg_StartupBufferBytesPerSession c, cfg_StartupBufferBytesGlobal c, cfg_DiagnosticPrefixBytes c]
   \<and> list_all trimmed (cfg_WakePolicy c # cfg_BackendReadinessMode c # cfg_BackendReadinessAddr c # cfg_WakeSignatures c)
   \<and> cfg_WakeSignatures c \<noteq> [] \<and> list_all (\<lambda>s. CHR '','' \<notin> set s) (cfg_WakeSignatures c)"

lemma Split_comma_free: "CHR '','' \<notin> set s \<Longrightarrow> Split_comma s = [s]"
  by (induction s) auto

lemma Split_comma_append:
  "CHR '','' \<notin> set p \<Longrightarrow> Split_comma (p @ CHR '','' # s) = p # Split_comma s"
  by (induction p) (auto simp: Split_comma_nonempty split: list.split)

lemma Split_Join:
  "ps \<noteq> [] \<Longrightarrow> list_all (\<lambda>s. CHR '','' \<notin> set s) ps \<Longrightarrow> Split_comma (Join_comma ps) = ps"
  by (induction ps rule: Join_comma.induct) (auto simp: Split_comma_free Split_comma_append)

lemma read_print_int: "int64_fits v \<Longrightarrow> read_int (print_int v) = Some v"
  by (simp add: int64_fits_def read_int_def value_of_def Atoi_print_int)

lemma read_print_duration: "int64_fits v \<Longrightarrow> read_duration (Duration_String v) = Some v"
  by (simp add: int64_fits_def read_duration_def value_of_def ParseDuration_String)

lemma read_print_bool: "read_bool (print_bool b) = Some b"
  by (simp add: read_bool_def print_bool_def)

lemma env_ok_env_of: "expressible c \<Longrightarrow> env_ok (env_of c)"
  by (simp add: env_ok_def typed_names_def malformed_names)
    (simp add: list_all_iff malformed_loops duration_names_def int_names_def well_formed_def env_of_def
      expressible_def read_print_int read_print_duration read_print_bool)

lemma env_config_env_of:
  assumes "expressible c"
  shows "env_config (env_of c) base = c"
proof -
  have "map TrimSpace (cfg_WakeSignatures c) = cfg_WakeSignatures c"
    using assms by (simp add: expressible_def trimmed_def list_all_iff map_idI)
  moreover have "Split_comma (Join_comma (cfg_WakeSignatures c)) = cfg_WakeSignatures c"
    using assms by (intro Split_Join) (auto simp: expressible_def)
  ultimately show ?thesis using assms
    by (cases c) (simp add: env_config_def from_env_def env_of_def expressible_def trimmed_def
        read_print_int read_print_duration read_print_bool)
qed

text \<open>
  C24: Round trip through the environment: setting every variable to the text of a
  configuration's field (decimal numbers, durations as Go prints them, signatures joined by
  commas) overrides any other configuration by exactly that one.
\<close>

theorem env_roundtrip:
  assumes "expressible c" "mset d = mset duration_names" "mset i = mset int_names"
  shows "applyEnvOverrides (env_of c) d i base = (None, c)"
  using applyEnvOverrides_steps [of "env_of c" d i base] env_ok_env_of [OF assms(1)]
    env_config_env_of [OF assms(1)] all_steps_ok [OF assms(2,3)] all_steps_config [OF assms(2,3)] by simp

lemma trimmed_plain:
  "trimmed []" "trimmed ''signature''" "trimmed ''pterodactyl''" "trimmed ''09080004bc597e73''"
  by (simp_all add: trimmed_def TrimSpace_def trim_start.simps space_encodings_def)

theorem env_roundtrip_witness:
  "applyEnvOverrides (env_of DefaultConfig) (rev duration_names) (rev int_names) (DefaultConfig\<lparr>cfg_MaxSessions := 1\<rparr>)
     = (None, DefaultConfig)"
  by (rule env_roundtrip)
    (simp_all add: expressible_def DefaultConfig_def int64_fits_def min_int64_def max_int64_def
      maxUDPPayloadSize_def minute_def second_def trimmed_plain)

text \<open>The configuration the file leaves, when it is usable: the defaults where it cannot be opened.\<close>

definition file_config :: "oslib \<Rightarrow> config option" where
  "file_config os =
     (case open_file os of
        Inl _ \<Rightarrow> Some DefaultConfig
      | Inr file \<Rightarrow> (case parseYAML os file DefaultConfig of (None, c) \<Rightarrow> Some c | (Some _, c) \<Rightarrow> None))"

definition loadable :: "netlib \<Rightarrow> oslib \<Rightarrow> bool" where
  "loadable lib os = (case file_config os of
     None \<Rightarrow> False
   | Some base \<Rightarrow> env_ok (LookupEnv os) \<and> Validate lib (env_config (LookupEnv os) base) = None)"

lemma applyEnvOverrides_cases:
  assumes "mset d = mset duration_names" "mset i = mset int_names"
  shows "if env_ok env then applyEnvOverrides env d i c = (None, env_config env c)
         else \<exists>e c1. applyEnvOverrides env d i c = (Some e, c1)"
  using applyEnvOverrides_steps [of env d i c]
  unfolding all_steps_ok [OF assms] all_steps_config [OF assms] by (cases "env_ok env") auto

lemma load_rest_cases:
  assumes "mset d = mset duration_names" "mset i = mset int_names"
  shows "if env_ok (LookupEnv os) \<and> Validate lib (env_config (LookupEnv os) c) = None
         then load_rest lib os d i out c =
           \<lparr>lr_cfg = env_config (LookupEnv os) c, lr_err = None, lr_printed = out,
            lr_level = Some (setLogLevel (cfg_LogLevel (env_config (LookupEnv os) c))),
            lr_debug = [''Final config: '' @ RedactedString (env_config (LookupEnv os) c)]\<rparr>
         else \<exists>c1 e. load_rest lib os d i out c = load_failed c1 e out"
  using applyEnvOverrides_cases [OF assms, of "LookupEnv os" c]
  by (auto simp: load_rest_def split: if_splits option.split) blast+

text \<open>
  C22: Loading fails closed. \<open>LoadConfig\<close> succeeds exactly when the file, if it could be
  opened, is a single well-formed document, the typed variables are well-formed and the
  resulting configuration is valid; then it returns that configuration, sets the log level
  and logs only its redacted form. On every failure it sets no log level and logs nothing.
\<close>

theorem LoadConfig_outcome:
  assumes "mset d = mset duration_names" "mset i = mset int_names"
  shows "(lr_err (LoadConfig lib os d i) = None \<longleftrightarrow> loadable lib os)
       \<and> (loadable lib os \<longrightarrow>
            Validate lib (lr_cfg (LoadConfig lib os d i)) = None
            \<and> Some (lr_cfg (LoadConfig lib os d i)) = map_option (env_config (LookupEnv os)) (file_config os)
            \<and> lr_level (LoadConfig lib os d i) = Some (setLogLevel (cfg_LogLevel (lr_cfg (LoadConfig lib os d i))))
            \<and> lr_debug (LoadConfig lib os d i) = [''Final config: '' @ RedactedString (lr_cfg (LoadConfig lib os d i))])
       \<and> (\<not> loadable lib os \<longrightarrow>
            lr_level (LoadConfig lib os d i) = None \<and> lr_debug (LoadConfig lib os d i) = [])"
proof (cases "file_config os")
  case None
  then obtain content e c where "open_file os = Inr content" "parseYAML os content DefaultConfig = (Some e, c)"
    by (auto simp: file_config_def split: sum.splits prod.splits option.splits)
  then show ?thesis using None by (simp add: LoadConfig_def load_failed_def loadable_def)
next
  case (Some base)
  then obtain out where "LoadConfig lib os d i = load_rest lib os d i out base"
    by (auto simp: file_config_def LoadConfig_def split: sum.splits prod.splits option.splits)
  then show ?thesis using Some load_rest_cases [OF assms, of os lib base out]
    by (auto simp: loadable_def load_failed_def split: if_splits)
qed


text \<open>
  The text that is logged does not depend on the secrets: configurations that differ in
  the backend address, the readiness address (as long as it is set in both or in neither)
  and the panel's URL, token and server ID have the same redacted text.
\<close>

theorem RedactedString_hides_secrets:
  assumes "r = [] \<longleftrightarrow> cfg_BackendReadinessAddr c = []"
  shows "RedactedString (c\<lparr>cfg_ServerAddr := a, cfg_BackendReadinessAddr := r, cfg_Pterodactyl := p\<rparr>) = RedactedString c"
  using assms by (cases c; cases "r = []") (simp_all add: RedactedString_def redacted_config_def Let_def)

theorem RedactedString_hides_secrets_witness:
  "RedactedString (DefaultConfig\<lparr>cfg_ServerAddr := ''10.0.0.5:8211'', cfg_BackendReadinessAddr := [],
     cfg_Pterodactyl := ex_ptero_config\<rparr>) = RedactedString DefaultConfig"
  by (rule RedactedString_hides_secrets) (simp add: DefaultConfig_def)

lemma default_signature_valid: "signatures_valid [''09080004bc597e73'']"
  using trimmed_plain(4) by (simp add: trimmed_def fromHexChar_def)

text \<open>
  The defaults are valid but for what has no default: where the machine resolves the two
  default addresses, the defaults themselves are refused for the missing backend address, and
  with a backend and a panel given they are valid exactly when the address names a specific
  host and the panel's settings pass their own checks.
\<close>

theorem defaults_need_only_backend:
  assumes "ResolveUDPAddr lib '':8211'' = Inr b" "ResolveTCPAddr lib ''127.0.0.1:8080'' = Inr (Some [127, 0, 0, 1])"
  shows "Validate lib DefaultConfig = Some (ErrText ''server_addr is required'')
     \<and> (Validate lib (DefaultConfig\<lparr>cfg_ServerAddr := a, cfg_Pterodactyl := p\<rparr>) = None \<longleftrightarrow>
          TrimSpace a \<noteq> [] \<and> (\<exists>ip. ResolveUDPAddr lib a = Inr ip \<and> specific_ip ip)
          \<and> Validate_panel lib (DefaultConfig\<lparr>cfg_Pterodactyl := p\<rparr>) = None)"
proof -
  let ?c = "DefaultConfig\<lparr>cfg_ServerAddr := a, cfg_Pterodactyl := p\<rparr>"
  have "Validate_limits ?c = None"
    by (simp add: Validate_limits_def DefaultConfig_def maxUDPPayloadSize_def minute_def second_def)
  moreover have "Validate_wake ?c = None"
    using default_signature_valid by (simp add: Validate_wake_def DefaultConfig_def)
  moreover have "Validate_probes lib ?c = None"
    using assms(2) by (simp add: Validate_probes_def DefaultConfig_def loopback_ip_def IsLoopback_def To4_def)
  moreover have "Validate_network lib ?c = None \<longleftrightarrow>
      TrimSpace a \<noteq> [] \<and> (\<exists>ip. ResolveUDPAddr lib a = Inr ip \<and> specific_ip ip)"
    using assms(1) by (auto simp: Validate_network_def DefaultConfig_def split: sum.split)
  moreover have "Validate_panel lib ?c = Validate_panel lib (DefaultConfig\<lparr>cfg_Pterodactyl := p\<rparr>)"
    by (simp add: Validate_panel_def)
  moreover have "Validate lib DefaultConfig = Some (ErrText ''server_addr is required'')"
    using assms(1) by (simp add: Validate_def or_else_def Validate_network_def DefaultConfig_def)
  ultimately show ?thesis
    by (simp add: Validate_def) (simp add: DefaultConfig_def log_levels_def)
qed

lemma nonblank_texts:
  "TrimSpace ''10.0.0.5:8211'' \<noteq> []" "TrimSpace ''ptlc_secret'' \<noteq> []" "TrimSpace ''abc-123'' \<noteq> []"
  by (simp_all add: TrimSpace_def trim_start.simps space_encodings_def)

lemma ex_specific_ip: "specific_ip (Some [192, 0, 2, 10])"
  by (simp add: specific_ip_def IsUnspecified_def To4_def numeral_eq_Suc)

lemma ex_panel_valid:
  "Validate_panel (ex_lib (Inl EOF)) (DefaultConfig\<lparr>cfg_Pterodactyl := ex_ptero_config\<rparr>) = None"
  by (simp add: Validate_panel_def ex_lib_def ex_url_def ex_ptero_config_def nonblank_texts)

theorem defaults_need_only_backend_witness:
  "Validate (ex_lib (Inl EOF)) (DefaultConfig\<lparr>cfg_ServerAddr := ''10.0.0.5:8211'', cfg_Pterodactyl := ex_ptero_config\<rparr>) = None"
proof -
  have "ResolveUDPAddr (ex_lib (Inl EOF)) '':8211'' = Inr (Some [192, 0, 2, 10])"
    "ResolveTCPAddr (ex_lib (Inl EOF)) ''127.0.0.1:8080'' = Inr (Some [127, 0, 0, 1])"
    by (simp_all add: ex_lib_def)
  then show ?thesis
    using defaults_need_only_backend [where lib = "ex_lib (Inl EOF)" and a = "''10.0.0.5:8211''" and p = ex_ptero_config]
      ex_panel_valid nonblank_texts ex_specific_ip
    by (simp add: ex_lib_def)
qed

definition ex_os :: oslib where
  "ex_os = \<lparr>LookupEnv = map_of [(''SERVER_ADDR'', ''10.0.0.5:8211''), (''PTERO_BASE_URL'', ''https://panel.example.com''),
       (''PTERO_API_TOKEN'', ''ptlc_secret''), (''PTERO_SERVER_ID'', ''abc-123'')],
     open_file = Inl (ErrText ''no such file'', True), yaml_first = (\<lambda>_ c. (Some EOF, c, [])), yaml_next = (\<lambda>_. Some EOF)\<rparr>"

definition ex_config :: config where
  "ex_config = DefaultConfig\<lparr>cfg_ServerAddr := ''10.0.0.5:8211'', cfg_Pterodactyl := ex_ptero_config\<rparr>"

lemma ex_env_config: "env_config (LookupEnv ex_os) DefaultConfig = ex_config"
  by (simp add: env_config_def from_env_def ex_os_def ex_config_def DefaultConfig_def ex_ptero_config_def)

lemma ex_env_ok: "env_ok (LookupEnv ex_os)"
  by (simp add: env_ok_def typed_names_def malformed_names)
    (simp add: list_all_iff malformed_loops duration_names_def int_names_def well_formed_def ex_os_def)

lemma ex_config_valid: "Validate (ex_lib (Inl EOF)) ex_config = None"
proof -
  have "Validate_network (ex_lib (Inl EOF)) ex_config = None"
    by (simp add: Validate_network_def ex_config_def ex_lib_def nonblank_texts ex_specific_ip)
  moreover have "Validate_limits ex_config = None"
    by (simp add: Validate_limits_def ex_config_def DefaultConfig_def maxUDPPayloadSize_def minute_def second_def)
  moreover have "Validate_wake ex_config = None"
    using default_signature_valid by (simp add: Validate_wake_def ex_config_def DefaultConfig_def)
  moreover have "Validate_probes (ex_lib (Inl EOF)) ex_config = None"
    by (simp add: Validate_probes_def ex_config_def DefaultConfig_def ex_lib_def loopback_ip_def IsLoopback_def To4_def)
  moreover have "Validate_panel (ex_lib (Inl EOF)) ex_config = None"
    by (simp add: Validate_panel_def ex_config_def ex_lib_def ex_url_def ex_ptero_config_def nonblank_texts)
  ultimately show ?thesis
    by (simp add: Validate_def) (simp add: ex_config_def DefaultConfig_def log_levels_def)
qed

theorem LoadConfig_outcome_witness:
  "lr_err (LoadConfig (ex_lib (Inl EOF)) ex_os duration_names int_names) = None
   \<and> lr_cfg (LoadConfig (ex_lib (Inl EOF)) ex_os duration_names int_names) = ex_config"
proof -
  have fc: "file_config ex_os = Some DefaultConfig" by (simp add: file_config_def ex_os_def)
  then have "loadable (ex_lib (Inl EOF)) ex_os"
    using ex_env_ok ex_env_config ex_config_valid by (simp add: loadable_def)
  then show ?thesis
    using LoadConfig_outcome [of duration_names int_names "ex_lib (Inl EOF)" ex_os] fc ex_env_config by simp
qed

end
