(* ===== verification/Palworld.thy ===== *)
theory Palworld
  imports GoStrings
begin

text \<open>
  pkg/games/palworld.go: the wake detector and its rate-limited diagnostics. The
  \<open>diagnostic\<close> callback is an output: a detection returns the calls it made, each a packet
  length and a prefix. The clock \<open>now\<close> is an argument. \<open>wake_detector\<close> is the contract of
  the interfaces \<open>games.GameModule\<close> and \<open>proxy.WakeDetector\<close>.
\<close>

definition defaultPalworldStartSignature :: string where
  "defaultPalworldStartSignature = ''09080004bc597e73''"

record palworld_options =
  po_WakePolicy :: string
  po_Signatures :: "string list"
  po_LogUnmatchedPrefixes :: bool
  po_DiagnosticPrefixBytes :: int
  po_DiagnosticInterval :: duration

record palworld_game =
  wakePolicy :: string
  startSignatures :: "bytes list"
  logUnmatched :: bool
  diagnosticPrefix :: int
  diagnosticInterval :: duration
  lastDiagnostic :: time

text \<open>The loop over the configured signatures: the first bad one is the error.\<close>

fun decode_signatures :: "string list \<Rightarrow> goerror + bytes list" where
  "decode_signatures [] = Inr []"
| "decode_signatures (encoded # rest) =
     (case hex_DecodeString (TrimSpace encoded) of
        Inl e \<Rightarrow> Inl (ErrText ''invalid Palworld wake signature'')
      | Inr signature \<Rightarrow>
          if signature = [] then Inl (ErrText ''invalid Palworld wake signature'')
          else (case decode_signatures rest of
                  Inl e \<Rightarrow> Inl e
                | Inr signatures \<Rightarrow> Inr (signature # signatures)))"

definition NewConfiguredPalworldGame :: "palworld_options \<Rightarrow> goerror + palworld_game" where
  "NewConfiguredPalworldGame options =
     (if po_WakePolicy options \<noteq> ''signature'' \<and> po_WakePolicy options \<noteq> ''any'' then
        Inl (ErrText ''invalid Palworld wake policy'')
      else if po_WakePolicy options = ''signature'' \<and> length (po_Signatures options) = 0 then
        Inl (ErrText ''at least one Palworld wake signature is required'')
      else
        let prefix_bytes = (if po_DiagnosticPrefixBytes options \<le> 0 then 8
                            else po_DiagnosticPrefixBytes options)
        in if prefix_bytes > 32 then
             Inl (ErrText ''palworld diagnostic prefix must not exceed 32 bytes'')
           else
             let interval = (if po_DiagnosticInterval options \<le> 0 then 30 * second
                             else po_DiagnosticInterval options);
                 game = \<lparr>wakePolicy = po_WakePolicy options, startSignatures = [],
                         logUnmatched = po_LogUnmatchedPrefixes options,
                         diagnosticPrefix = prefix_bytes, diagnosticInterval = interval,
                         lastDiagnostic = time_zero\<rparr>
             in if po_WakePolicy options = ''signature'' then
                  (case decode_signatures (po_Signatures options) of
                     Inl e \<Rightarrow> Inl e
                   | Inr signatures \<Rightarrow> Inr (game\<lparr>startSignatures := signatures\<rparr>))
                else Inr game)"

text \<open>\<open>NewPalworldGame\<close> panics where the construction fails; \<open>None\<close> is the panic.\<close>

definition NewPalworldGame :: "palworld_game option" where
  "NewPalworldGame =
     (case NewConfiguredPalworldGame
             \<lparr>po_WakePolicy = ''signature'', po_Signatures = [defaultPalworldStartSignature],
              po_LogUnmatchedPrefixes = False, po_DiagnosticPrefixBytes = 0,
              po_DiagnosticInterval = 0\<rparr> of
        Inl e \<Rightarrow> None
      | Inr game \<Rightarrow> Some game)"

definition diagnoseUnmatched ::
    "time \<Rightarrow> bytes \<Rightarrow> palworld_game \<Rightarrow> palworld_game \<times> (int \<times> bytes) list" where
  "diagnoseUnmatched now data pw =
     (if \<not> logUnmatched pw \<or> length data = 0 then (pw, [])
      else if \<not> time_IsZero (lastDiagnostic pw)
              \<and> time_Sub now (lastDiagnostic pw) < diagnosticInterval pw then (pw, [])
      else
        let pw1 = pw\<lparr>lastDiagnostic := now\<rparr>;
            prefixLength = min (int (length data)) (diagnosticPrefix pw)
        in (pw1, [(int (length data), take (nat prefixLength) data)]))"

fun matches_signature :: "bytes \<Rightarrow> bytes list \<Rightarrow> bool" where
  "matches_signature data [] = False"
| "matches_signature data (signature # rest) =
     (if length data \<ge> length signature \<and> take (length signature) data = signature then True
      else matches_signature data rest)"

definition DetectStart ::
    "time \<Rightarrow> bytes \<Rightarrow> palworld_game \<Rightarrow> bool \<times> palworld_game \<times> (int \<times> bytes) list" where
  "DetectStart now data pw =
     (if wakePolicy pw = ''any'' then (length data > 0, pw, [])
      else if matches_signature data (startSignatures pw) then (True, pw, [])
      else let (pw1, calls) = diagnoseUnmatched now data pw in (False, pw1, calls))"

section \<open>The detector's contract\<close>

text \<open>
  A wake detector answers by a predicate on packets that no detection changes, and the
  empty packet never wakes.
\<close>

locale wake_detector =
  fixes detect :: "time \<Rightarrow> bytes \<Rightarrow> 'g \<Rightarrow> bool \<times> 'g \<times> 'c"
    and accepts :: "'g \<Rightarrow> bytes \<Rightarrow> bool"
    and wf :: "'g \<Rightarrow> bool"
  assumes verdict: "wf g \<Longrightarrow> detect now data g = (b, g1, c) \<Longrightarrow> b = accepts g data"
    and kept: "wf g \<Longrightarrow> detect now data g = (b, g1, c) \<Longrightarrow> wf g1 \<and> accepts g1 = accepts g"
    and empty: "wf g \<Longrightarrow> \<not> accepts g []"
begin

fun after :: "(time \<times> bytes) list \<Rightarrow> 'g \<Rightarrow> 'g" where
  "after [] g = g"
| "after ((now, data) # ps) g = after ps (fst (snd (detect now data g)))"

lemma after_kept: "wf g \<Longrightarrow> wf (after ps g) \<and> accepts (after ps g) = accepts g"
proof (induction ps arbitrary: g)
  case (Cons p ps)
  obtain now data where p: "p = (now, data)" by (cases p)
  have "wf (fst (snd (detect now data g))) \<and> accepts (fst (snd (detect now data g))) = accepts g"
    using kept [OF Cons.prems] by (metis prod.collapse)
  with Cons.IH show ?case by (simp add: p)
qed simp

text \<open>No history of earlier packets changes the verdict on a packet.\<close>

lemma history_independent:
  "wf g \<Longrightarrow> fst (detect now data (after ps g)) = accepts g data"
  using after_kept [of g ps] verdict by (metis prod.collapse)

end

definition game_accepts :: "palworld_game \<Rightarrow> bytes \<Rightarrow> bool" where
  "game_accepts pw data \<longleftrightarrow>
     (if wakePolicy pw = ''any'' then data \<noteq> [] else list_ex (\<lambda>sig. prefix sig data) (startSignatures pw))"

definition game_wf :: "palworld_game \<Rightarrow> bool" where
  "game_wf pw \<longleftrightarrow> [] \<notin> set (startSignatures pw)
     \<and> 1 \<le> diagnosticPrefix pw \<and> diagnosticPrefix pw \<le> 32 \<and> 0 < diagnosticInterval pw"

lemma matches_signature_iff: "matches_signature data sigs \<longleftrightarrow> list_ex (\<lambda>sig. prefix sig data) sigs"
proof (induction sigs)
  case (Cons sig sigs)
  have "length sig \<le> length data \<and> take (length sig) data = sig \<longleftrightarrow> prefix sig data"
    by (metis append_take_drop_id prefixI prefix_def take_all_iff append_eq_conv_conj prefix_length_le)
  with Cons show ?case by simp
qed simp

lemma diagnoseUnmatched_frame:
  "diagnoseUnmatched now data pw = (pw1, calls) \<Longrightarrow>
     pw1 = pw \<or> pw1 = pw\<lparr>lastDiagnostic := now\<rparr>"
  by (auto simp: diagnoseUnmatched_def Let_def split: if_splits)

lemma DetectStart_frame:
  assumes "DetectStart now data pw = (b, pw1, calls)"
  shows "pw1 = pw \<or> pw1 = pw\<lparr>lastDiagnostic := now\<rparr>"
  using assms diagnoseUnmatched_frame [of now data pw]
  by (auto simp: DetectStart_def split: if_splits prod.splits)

interpretation pw: wake_detector DetectStart game_accepts game_wf
proof unfold_locales
  fix now data pw b pw1 calls
  assume wf: "game_wf pw" and d: "DetectStart now data pw = (b, pw1, calls)"
  show "b = game_accepts pw data"
    using d by (auto simp: DetectStart_def game_accepts_def matches_signature_iff
        split: if_splits prod.splits)
  show "game_wf pw1 \<and> game_accepts pw1 = game_accepts pw"
    using wf DetectStart_frame [OF d] by (auto simp: game_wf_def game_accepts_def fun_eq_iff)
next
  fix pw
  assume "game_wf pw"
  then show "\<not> game_accepts pw []"
    by (auto simp: game_wf_def game_accepts_def list_ex_iff)
qed

section \<open>Construction\<close>

text \<open>The relation between a configured signature and what it decodes to.\<close>

definition decodes_to :: "string \<Rightarrow> bytes \<Rightarrow> bool" where
  "decodes_to e sig \<longleftrightarrow> hex_DecodeString (TrimSpace e) = Inr sig \<and> sig \<noteq> []"

lemma decodes_unique:
  "list_all2 decodes_to es xs \<Longrightarrow> list_all2 decodes_to es ys \<Longrightarrow> xs = ys"
  by (induction arbitrary: ys rule: list_all2_induct) (auto simp: list_all2_Cons1 decodes_to_def)

lemma decode_signatures_Inr:
  "decode_signatures es = Inr sigs \<longleftrightarrow>
     list_all2 decodes_to es sigs"
proof (induction es arbitrary: sigs)
  case (Cons e es)
  have "decodes_to e sig \<longleftrightarrow> hex_DecodeString (TrimSpace e) = Inr sig \<and> sig \<noteq> []" for sig
    by (simp add: decodes_to_def)
  with Cons.IH show ?case
    by (auto simp: list_all2_Cons1 split: sum.splits dest: decodes_unique)
qed auto

lemma decoded_ex:
  "list_all2 decodes_to es sigs \<Longrightarrow>
     list_ex P sigs \<longleftrightarrow> (\<exists>e \<in> set es. \<exists>sig. hex_DecodeString (TrimSpace e) = Inr sig \<and> sig \<noteq> [] \<and> P sig)"
  by (induction rule: list_all2_induct) (auto simp: decodes_to_def)

lemma decoded_nonempty: "list_all2 decodes_to es sigs \<Longrightarrow> [] \<notin> set sigs"
  by (induction rule: list_all2_induct) (auto simp: decodes_to_def)

lemma NewConfiguredPalworldGame_Inr:
  "NewConfiguredPalworldGame opts = Inr pw \<longleftrightarrow>
     (\<exists>sigs. (po_WakePolicy opts = ''signature'' \<and> po_Signatures opts \<noteq> []
        \<and> list_all2 decodes_to (po_Signatures opts) sigs
      \<or> po_WakePolicy opts = ''any'' \<and> sigs = [])
     \<and> po_DiagnosticPrefixBytes opts \<le> 32
     \<and> pw = \<lparr>wakePolicy = po_WakePolicy opts, startSignatures = sigs,
             logUnmatched = po_LogUnmatchedPrefixes opts,
             diagnosticPrefix = (if po_DiagnosticPrefixBytes opts \<le> 0 then 8
                                 else po_DiagnosticPrefixBytes opts),
             diagnosticInterval = (if po_DiagnosticInterval opts \<le> 0 then 30 * second
                                   else po_DiagnosticInterval opts),
             lastDiagnostic = time_zero\<rparr>)"
  by (auto simp: NewConfiguredPalworldGame_def Let_def decode_signatures_Inr [symmetric]
      split: sum.splits)

lemma NewConfigured_wf: "NewConfiguredPalworldGame opts = Inr pw \<Longrightarrow> game_wf pw"
  by (auto simp: NewConfiguredPalworldGame_Inr game_wf_def go_time dest: decoded_nonempty)

section \<open>Properties\<close>

definition ex_palworld :: palworld_options where
  "ex_palworld = \<lparr>po_WakePolicy = ''signature'', po_Signatures = ['' 0908 '', ''ff''],
                  po_LogUnmatchedPrefixes = True, po_DiagnosticPrefixBytes = 2,
                  po_DiagnosticInterval = 10\<rparr>"

definition ex_game :: palworld_game where
  "ex_game = \<lparr>wakePolicy = ''signature'', startSignatures = [[9, 8], [255]], logUnmatched = True,
              diagnosticPrefix = 2, diagnosticInterval = 10, lastDiagnostic = time_zero\<rparr>"

lemma ex_decode: "hex_DecodeString (TrimSpace '' 0908 '') = Inr [9, 8]"
    "hex_DecodeString (TrimSpace ''ff'') = Inr [255]"
  by (simp_all add: TrimSpace_def space_encodings_def trim_start.simps fromHexChar_def)

lemma ex_game_new: "NewConfiguredPalworldGame ex_palworld = Inr ex_game"
  by (simp add: NewConfiguredPalworldGame_def ex_palworld_def ex_game_def ex_decode)

text \<open>
  Under the signature policy a packet wakes the server exactly if one of the configured
  hexadecimal signatures (trimmed and decoded) is a prefix of it; under the diagnostic
  policy \<open>any\<close>, exactly if it is not empty. The verdict does not depend on the clock, on the
  diagnostics or on any packets seen before, and the empty packet never wakes.
\<close>

theorem DetectStart_signature:
  assumes "NewConfiguredPalworldGame opts = Inr pw"
  shows "fst (DetectStart now data (pw.after earlier pw)) \<longleftrightarrow>
    (if po_WakePolicy opts = ''any'' then data \<noteq> []
     else \<exists>encoded \<in> set (po_Signatures opts). \<exists>sig.
            hex_DecodeString (TrimSpace encoded) = Inr sig \<and> sig \<noteq> [] \<and> prefix sig data)"
proof -
  have wf: "game_wf pw" using assms by (rule NewConfigured_wf)
  have pw: "wakePolicy pw = po_WakePolicy opts"
    using assms by (auto simp: NewConfiguredPalworldGame_Inr)
  have "po_WakePolicy opts \<noteq> ''any'' \<Longrightarrow>
      list_all2 decodes_to (po_Signatures opts) (startSignatures pw)"
    using assms by (auto simp: NewConfiguredPalworldGame_Inr)
  then show ?thesis
    unfolding pw.history_independent [OF wf] game_accepts_def pw
    by (simp add: decoded_ex)
qed

theorem DetectStart_signature_witness:
  "fst (DetectStart 5 [9, 8, 1] (pw.after [(1, [7])] ex_game))
   \<and> \<not> fst (DetectStart 5 [9] (pw.after [(1, [7])] ex_game))"
  unfolding DetectStart_signature [OF ex_game_new] by (simp add: ex_palworld_def ex_decode)

text \<open>The diagnostics a sequence of packets causes, with the time of each.\<close>

fun diagnostics_run :: "(time \<times> bytes) list \<Rightarrow> palworld_game \<Rightarrow> (time \<times> int \<times> bytes) list" where
  "diagnostics_run [] pw = []"
| "diagnostics_run ((now, data) # ps) pw =
     (let (b, pw1, calls) = DetectStart now data pw
      in map (\<lambda>(n, p). (now, n, p)) calls @ diagnostics_run ps pw1)"

lemma DetectStart_calls:
  assumes "DetectStart now data pw = (b, pw1, calls)" "game_wf pw"
  shows "calls = [] \<and> pw1 = pw
    \<or> calls = [(int (length data), take (nat (min (int (length data)) (diagnosticPrefix pw))) data)]
       \<and> pw1 = pw\<lparr>lastDiagnostic := now\<rparr> \<and> \<not> game_accepts pw data \<and> logUnmatched pw
       \<and> (lastDiagnostic pw \<noteq> time_zero \<longrightarrow> diagnosticInterval pw \<le> time_Sub now (lastDiagnostic pw))"
  using assms
  by (auto simp: DetectStart_def diagnoseUnmatched_def Let_def time_IsZero_def game_accepts_def
      matches_signature_iff split: if_splits)

lemma diagnostics_run_spaced:
  assumes "game_wf pw" "diagnosticInterval pw \<le> max_int64" "\<forall>p \<in> set ps. fst p \<noteq> time_zero"
  shows "sorted_wrt (\<lambda>a b. fst a + diagnosticInterval pw \<le> fst b) (diagnostics_run ps pw)
    \<and> (lastDiagnostic pw \<noteq> time_zero \<longrightarrow>
        (\<forall>d \<in> set (diagnostics_run ps pw). lastDiagnostic pw + diagnosticInterval pw \<le> fst d))"
  using assms
proof (induction ps arbitrary: pw)
  case (Cons p ps)
  obtain now data where p: "p = (now, data)" by (cases p)
  obtain b pw1 calls where d: "DetectStart now data pw = (b, pw1, calls)" by (metis prod.collapse)
  have int: "0 < diagnosticInterval pw" using Cons.prems by (simp add: game_wf_def)
  show ?case using DetectStart_calls [OF d Cons.prems(1)]
  proof (elim disjE conjE)
    assume "calls = []" "pw1 = pw"
    with d Cons show ?thesis by (simp add: p)
  next
    assume calls: "calls = [(int (length data), take (nat (min (int (length data)) (diagnosticPrefix pw))) data)]"
      and pw1: "pw1 = pw\<lparr>lastDiagnostic := now\<rparr>"
      and gap: "lastDiagnostic pw \<noteq> time_zero \<longrightarrow> diagnosticInterval pw \<le> time_Sub now (lastDiagnostic pw)"
    have "game_wf pw1" "diagnosticInterval pw1 \<le> max_int64" using Cons.prems pw1 by (auto simp: game_wf_def)
    note IH = Cons.IH [OF this]
    have gap': "lastDiagnostic pw + diagnosticInterval pw \<le> now" if "lastDiagnostic pw \<noteq> time_zero"
      using that gap int Cons.prems(2) time_Sub_less_iff [of "diagnosticInterval pw" now "lastDiagnostic pw"]
      by (auto simp: min_int64_def not_less)
    show ?thesis using IH Cons.prems(3) d calls gap' int by (fastforce simp: p pw1)
  qed
qed simp

lemma diagnostics_run_bounded:
  assumes "game_wf pw" "d \<in> set (diagnostics_run ps pw)"
  shows "logUnmatched pw \<and> length (snd (snd d)) \<le> 32
    \<and> (\<exists>data. (fst d, data) \<in> set ps \<and> fst (snd d) = int (length data)
         \<and> prefix (snd (snd d)) data \<and> \<not> game_accepts pw data)"
  using assms
proof (induction ps arbitrary: pw)
  case (Cons p ps)
  obtain now data where p: "p = (now, data)" by (cases p)
  obtain b pw1 calls where ds: "DetectStart now data pw = (b, pw1, calls)" by (metis prod.collapse)
  have pw1: "game_wf pw1" "game_accepts pw1 = game_accepts pw" "logUnmatched pw1 = logUnmatched pw"
    using pw.kept [OF Cons.prems(1) ds] DetectStart_frame [OF ds] by auto
  from Cons.prems(2) consider
    (here) n q where "(n, q) \<in> set calls" "d = (now, n, q)" | (later) "d \<in> set (diagnostics_run ps pw1)"
    by (auto simp: p ds)
  then show ?case
  proof cases
    case here
    then show ?thesis using DetectStart_calls [OF ds Cons.prems(1)] Cons.prems(1)
      by (auto simp: p game_wf_def take_is_prefix)
  next
    case later
    then show ?thesis using Cons.IH [OF pw1(1)] pw1 by (auto simp: p)
  qed
qed simp

text \<open>
  Diagnostics of unmatched packets are rate-limited and bounded: over any sequence of
  packets two diagnostics are at least the configured interval apart, each reports the
  length and at most 32 leading bytes of a packet that did not wake the server, and none
  is made unless the diagnostic mode is on.
\<close>

theorem diagnostics_rate_limited:
  assumes "NewConfiguredPalworldGame opts = Inr pw" "po_DiagnosticInterval opts \<le> max_int64"
    "\<forall>p \<in> set ps. fst p \<noteq> time_zero"
  shows "sorted_wrt (\<lambda>a b. fst a + diagnosticInterval pw \<le> fst b) (diagnostics_run ps pw)
    \<and> 0 < diagnosticInterval pw
    \<and> (\<forall>d \<in> set (diagnostics_run ps pw). po_LogUnmatchedPrefixes opts \<and> length (snd (snd d)) \<le> 32
         \<and> (\<exists>data. (fst d, data) \<in> set ps \<and> fst (snd d) = int (length data)
              \<and> prefix (snd (snd d)) data \<and> \<not> game_accepts pw data))"
proof -
  have wf: "game_wf pw" using assms(1) by (rule NewConfigured_wf)
  have pw: "logUnmatched pw = po_LogUnmatchedPrefixes opts"
    "diagnosticInterval pw = (if po_DiagnosticInterval opts \<le> 0 then 30 * second else po_DiagnosticInterval opts)"
    using assms(1) by (auto simp: NewConfiguredPalworldGame_Inr)
  then have "diagnosticInterval pw \<le> max_int64" using assms(2) by (simp add: go_time)
  from diagnostics_run_spaced [OF wf this assms(3)] diagnostics_run_bounded [OF wf] wf show ?thesis
    by (auto simp: pw(1) game_wf_def)
qed

theorem diagnostics_rate_limited_witness:
  "diagnostics_run [(1, [1, 2, 3]), (5, [4]), (11, [9]), (12, [255])] ex_game
     = [(1, 3, [1, 2]), (11, 1, [9])]
   \<and> sorted_wrt (\<lambda>a b. fst a + 10 \<le> fst b)
       (diagnostics_run [(1, [1, 2, 3]), (5, [4]), (11, [9]), (12, [255])] ex_game)"
proof -
  have i: "diagnosticInterval ex_game = 10" by (simp add: ex_game_def)
  have "sorted_wrt (\<lambda>a b. fst a + 10 \<le> fst b)
       (diagnostics_run [(1, [1, 2, 3]), (5, [4]), (11, [9]), (12, [255])] ex_game)"
    by (rule diagnostics_rate_limited [OF ex_game_new, unfolded i, THEN conjunct1])
      (simp_all add: ex_palworld_def go_time)
  moreover have "diagnostics_run [(1, [1, 2, 3]), (5, [4]), (11, [9]), (12, [255])] ex_game
     = [(1, 3, [1, 2]), (11, 1, [9])]"
    by (simp add: ex_game_def DetectStart_def diagnoseUnmatched_def go_time)
  ultimately show ?thesis by simp
qed

text \<open>The bundled default signature constructs (no panic) and detects its own packets.\<close>

lemma NewPalworldGame_no_panic:
  "\<exists>pw. NewPalworldGame = Some pw \<and> startSignatures pw = [[9, 8, 0, 4, 0xbc, 0x59, 0x7e, 0x73]]"
proof -
  have "map_option startSignatures NewPalworldGame = Some [[9, 8, 0, 4, 0xbc, 0x59, 0x7e, 0x73]]"
    by (simp add: NewPalworldGame_def NewConfiguredPalworldGame_def defaultPalworldStartSignature_def
        TrimSpace_def space_encodings_def trim_start.simps fromHexChar_def)
  then show ?thesis by auto
qed

end
