(* ===== verification/Readiness.thy ===== *)
theory Readiness
  imports Pterodactyl
begin

text \<open>
  pkg/readiness: the two probes behind the interface \<open>proxy.BackendReadiness\<close>. What a probe
  meets (the state of its context, the answer of the controller, results of the socket) is
  an argument; a waiting loop takes the list of what its iterations meet and returns
  \<open>None\<close> while that list has not made it return.
\<close>

definition waitForRetry :: "goerror option \<Rightarrow> goerror option" where
  "waitForRetry ctx_done = (case ctx_done of Some e \<Rightarrow> Some e | None \<Rightarrow> None)"

section \<open>The Pterodactyl probe\<close>

record ptero_probe =
  pp_pollInterval :: duration

definition NewPterodactylProbe :: "'c option \<Rightarrow> duration \<Rightarrow> goerror + ptero_probe" where
  "NewPterodactylProbe ctl interval =
     (if ctl = None \<or> interval \<le> 0 then
        Inl (ErrText ''Pterodactyl controller and positive poll interval are required'')
      else Inr \<lparr>pp_pollInterval = interval\<rparr>)"

definition Probe :: "goerror option \<Rightarrow> (goerror + server_state) \<Rightarrow> goerror option" where
  "Probe ctx_err status =
     (case ctx_err of
        Some e \<Rightarrow> Some (InconclusiveReadinessError (Wrap ''probe Pterodactyl readiness'' e))
      | None \<Rightarrow>
          (case status of
             Inl e \<Rightarrow> Some (InconclusiveReadinessError (Wrap ''probe Pterodactyl readiness'' e))
           | Inr state \<Rightarrow>
               if state \<noteq> StateRunning then
                 Some (ErrText ''Pterodactyl backend state is not running'')
               else None))"

text \<open>
  One iteration of the waiting loop: the context when \<open>Probe\<close> asks, the controller's
  answer, the context after the probe, and how the wait for the next poll ends.
\<close>

record wait_round =
  wr_ctx :: "goerror option"
  wr_status :: "goerror + server_state"
  wr_ctx_after :: "goerror option"
  wr_retry :: "goerror option"

fun WaitReady :: "wait_round list \<Rightarrow> goerror option option" where
  "WaitReady [] = None"
| "WaitReady (r # rs) =
     (case Probe (wr_ctx r) (wr_status r) of
        None \<Rightarrow> Some None
      | Some err \<Rightarrow>
          (case wr_ctx_after r of
             Some e \<Rightarrow> Some (Some (Wrap ''wait for Pterodactyl readiness'' e))
           | None \<Rightarrow>
               if IsPermanent (Some err) then Some (Some err)
               else (case waitForRetry (wr_retry r) of
                       Some e \<Rightarrow> Some (Some (Wrap ''wait for Pterodactyl readiness'' e))
                     | None \<Rightarrow> WaitReady rs)))"

section \<open>The A2S probe\<close>

definition a2sInfoQuery :: bytes where
  "a2sInfoQuery = [0xff, 0xff, 0xff, 0xff, 0x54] @ map of_char ''Source Engine Query'' @ [0]"

record a2s_probe =
  ap_pollInterval :: duration

definition NewA2SProbe :: "netlib \<Rightarrow> string \<Rightarrow> duration \<Rightarrow> goerror + a2s_probe" where
  "NewA2SProbe lib address interval =
     (if interval \<le> 0 then Inl (ErrText ''A2S poll interval must be positive'')
      else case ResolveUDPAddr lib address of
             Inl e \<Rightarrow> Inl (Wrap ''resolve A2S address'' e)
           | Inr resolved \<Rightarrow> Inr \<lparr>ap_pollInterval = interval\<rparr>)"

text \<open>The inner loops of \<open>validA2SInfo\<close>: advance to the next zero byte or the end.\<close>

function scan_zero :: "bytes \<Rightarrow> nat \<Rightarrow> nat" where
  "scan_zero response i =
     (if i < length response \<and> response ! i \<noteq> 0 then scan_zero response (i + 1) else i)"
  by pat_completeness auto
termination
  by (relation "measure (\<lambda>(response, i). length response - i)") auto

declare scan_zero.simps [simp del]

fun skip_strings :: "nat \<Rightarrow> bytes \<Rightarrow> nat \<Rightarrow> nat option" where
  "skip_strings 0 response offset = Some offset"
| "skip_strings (Suc n) response offset =
     (let e = scan_zero response offset
      in if e \<ge> length response then None else skip_strings n response (e + 1))"

definition validA2SInfo :: "bytes \<Rightarrow> bool" where
  "validA2SInfo response =
     (if length response < 6 \<or> response ! 4 \<noteq> 0x49 then False
      else case skip_strings 4 response 6 of
             None \<Rightarrow> False
           | Some offset \<Rightarrow>
               if int (length response) - int offset < 9 then False
               else scan_zero response (offset + 9) < length response)"

text \<open>A read of the probe's socket: an error with its timeout flag, or a datagram.\<close>

datatype a2s_read = A2SErr goerror bool | A2SMsg bytes bool

record a2s_round =
  ar_ctx :: "goerror option"
  ar_write :: "goerror option"
  ar_deadline :: "goerror option"
  ar_read :: a2s_read
  ar_ctx_read :: "goerror option"
  ar_retry :: "goerror option"

definition bad_header :: "bytes \<Rightarrow> bool \<Rightarrow> bool" where
  "bad_header response trunc \<longleftrightarrow>
     trunc \<or> length response < 5 \<or> response ! 0 \<noteq> 0xff \<or> response ! 1 \<noteq> 0xff
     \<or> response ! 2 \<noteq> 0xff \<or> response ! 3 \<noteq> 0xff"

text \<open>
  \<open>A2SProbe.Probe\<close>: at most two attempts, the second with the challenge of the first
  answer. The result is the queries written and the error.
\<close>

fun a2s_attempts ::
    "nat \<Rightarrow> bytes \<Rightarrow> a2s_round list \<Rightarrow> bytes list \<times> goerror option" where
  "a2s_attempts attempts query [] =
     ([], Some (ErrText ''A2S probe challenge did not produce an info response''))"
| "a2s_attempts attempts query (r # rs) =
     (case ar_write r of
        Some e \<Rightarrow> ([], Some (Wrap ''write A2S probe'' e))
      | None \<Rightarrow>
          (case ar_read r of
             A2SErr e t \<Rightarrow>
               ([query], Some (case ar_ctx_read r of
                                 Some c \<Rightarrow> Wrap ''probe A2S readiness'' c
                               | None \<Rightarrow> Wrap ''read A2S probe'' e))
           | A2SMsg response trunc \<Rightarrow>
               if bad_header response trunc then ([query], Some (ErrText ''invalid A2S response''))
               else if response ! 4 = 0x49 then
                 ([query], if validA2SInfo response then None
                           else Some (ErrText ''invalid A2S info response''))
               else if response ! 4 = 0x41 \<and> attempts = 0 \<and> length response \<ge> 9 then
                 (let (sent, res) = a2s_attempts (attempts + 1)
                                      (a2sInfoQuery @ take 4 (drop 5 response)) rs
                  in (query # sent, res))
               else ([query], Some (ErrText ''unexpected A2S response type''))))"

definition A2S_Probe ::
    "goerror option \<Rightarrow> goerror option \<Rightarrow> goerror option \<Rightarrow> a2s_round \<Rightarrow> a2s_round \<Rightarrow>
     bytes list \<times> goerror option" where
  "A2S_Probe ctx_err dial_err deadline_err round1 round2 =
     (case ctx_err of
        Some e \<Rightarrow> ([], Some (Wrap ''probe A2S readiness'' e))
      | None \<Rightarrow>
          (case dial_err of
             Some e \<Rightarrow> ([], Some (Wrap ''dial A2S endpoint'' e))
           | None \<Rightarrow>
               (case deadline_err of
                  Some e \<Rightarrow> ([], Some (Wrap ''set A2S probe deadline'' e))
                | None \<Rightarrow> a2s_attempts 0 a2sInfoQuery [round1, round2])))"

text \<open>\<open>A2SProbe.WaitReady\<close> after its dial: the queries written and the result so far.\<close>

fun a2s_wait :: "bytes \<Rightarrow> a2s_round list \<Rightarrow> bytes list \<times> goerror option option" where
  "a2s_wait query [] = ([], None)"
| "a2s_wait query (r # rs) =
     (let retry = (\<lambda>sent. case waitForRetry (ar_retry r) of
                     Some e \<Rightarrow> (sent, Some (Some (Wrap ''wait for A2S readiness'' e)))
                   | None \<Rightarrow> (let (more, res) = a2s_wait a2sInfoQuery rs in (sent @ more, res)))
      in case ar_ctx r of
           Some e \<Rightarrow> ([], Some (Some (Wrap ''wait for A2S readiness'' e)))
         | None \<Rightarrow>
             (case ar_write r of
                Some e \<Rightarrow> retry []
              | None \<Rightarrow>
                  (case ar_deadline r of
                     Some e \<Rightarrow> ([query], Some (Some (Wrap ''set A2S read deadline'' e)))
                   | None \<Rightarrow>
                       (case ar_read r of
                          A2SErr e timeout \<Rightarrow>
                            (case ar_ctx_read r of
                               Some c \<Rightarrow> ([query], Some (Some (Wrap ''wait for A2S readiness'' c)))
                             | None \<Rightarrow>
                                 if \<not> timeout then retry [query]
                                 else (let (more, res) = a2s_wait a2sInfoQuery rs in (query # more, res)))
                        | A2SMsg response trunc \<Rightarrow>
                            if bad_header response trunc then retry [query]
                            else if response ! 4 = 0x49 \<and> validA2SInfo response then ([query], Some None)
                            else if response ! 4 = 0x41 \<and> length response \<ge> 9 then
                              (let (more, res) = a2s_wait (a2sInfoQuery @ take 4 (drop 5 response)) rs
                               in (query # more, res))
                            else retry [query]))))"

definition A2S_WaitReady ::
    "goerror option \<Rightarrow> a2s_round list \<Rightarrow> bytes list \<times> goerror option option" where
  "A2S_WaitReady dial_err rounds =
     (case dial_err of
        Some e \<Rightarrow> ([], Some (Some (Wrap ''dial A2S endpoint'' e)))
      | None \<Rightarrow> a2s_wait a2sInfoQuery rounds)"

section \<open>The contract of a waiting probe\<close>

text \<open>
  \<open>WaitReady\<close> of the interface \<open>BackendReadiness\<close>: it reports success only on evidence
  from an iteration, and it returns at the latest with the iteration whose context is done.
  Iterations after the one that returns play no part.
\<close>

locale waiting_probe =
  fixes wait :: "'r list \<Rightarrow> goerror option option"
    and evidence :: "'r \<Rightarrow> bool"
    and ctx_done :: "'r \<Rightarrow> bool"
  assumes success: "wait rs = Some None \<Longrightarrow> \<exists>r \<in> set rs. evidence r"
    and no_input: "wait [] = None"
    and returns: "ctx_done r \<Longrightarrow> \<exists>res. wait (rs @ [r]) = Some res"
    and prefix_stable: "wait rs = Some res \<Longrightarrow> wait (rs @ rs') = Some res"
begin

lemma wait_returns: "r \<in> set rs \<Longrightarrow> ctx_done r \<Longrightarrow> \<exists>res. wait rs = Some res"
  by (metis append.assoc append_Cons append_Nil prefix_stable returns split_list)

lemma no_evidence_no_success: "\<forall>r \<in> set rs. \<not> evidence r \<Longrightarrow> wait rs \<noteq> Some None"
  using success by blast

end

lemma Probe_None: "Probe c st = None \<longleftrightarrow> c = None \<and> st = Inr StateRunning"
  by (auto simp: Probe_def split: option.splits sum.splits)

definition running_round :: "wait_round \<Rightarrow> bool" where
  "running_round r \<longleftrightarrow> wr_ctx r = None \<and> wr_status r = Inr StateRunning"

definition ended_round :: "wait_round \<Rightarrow> bool" where
  "ended_round r \<longleftrightarrow> wr_ctx_after r \<noteq> None \<or> wr_retry r \<noteq> None"

lemma WaitReady_append: "WaitReady rs = Some res \<Longrightarrow> WaitReady (rs @ rs') = Some res"
  by (induction rs) (auto split: option.splits if_splits)

interpretation ppw: waiting_probe WaitReady running_round ended_round
proof unfold_locales
  fix rs
  show "WaitReady rs = Some None \<Longrightarrow> \<exists>r \<in> set rs. running_round r"
    by (induction rs) (auto simp: running_round_def Probe_None split: option.splits if_splits)
next
  fix r and rs :: "wait_round list"
  assume "ended_round r"
  then show "\<exists>res. WaitReady (rs @ [r]) = Some res"
    by (induction rs) (auto simp: ended_round_def waitForRetry_def split: option.splits)
qed (auto simp: WaitReady_append)

definition info_round :: "a2s_round \<Rightarrow> bool" where
  "info_round r \<longleftrightarrow> ar_ctx r = None \<and> ar_write r = None
     \<and> (\<exists>response. ar_read r = A2SMsg response False \<and> validA2SInfo response
          \<and> take 4 response = [0xff, 0xff, 0xff, 0xff])"

definition a2s_ended_round :: "a2s_round \<Rightarrow> bool" where
  "a2s_ended_round r \<longleftrightarrow> ar_ctx r \<noteq> None"

lemma take4: "4 \<le> length xs \<Longrightarrow> take 4 xs = [xs ! 0, xs ! 1, xs ! 2, xs ! 3]"
  by (simp add: list_eq_iff_nth_eq nth_Cons' less_Suc_eq numeral_eq_Suc)

lemma good_header: "\<not> bad_header response trunc \<Longrightarrow>
    \<not> trunc \<and> 5 \<le> length response \<and> take 4 response = [0xff, 0xff, 0xff, 0xff]"
  by (auto simp: bad_header_def take4)

text \<open>One iteration returns, or hands over to the next with the plain or a challenged query.\<close>

lemma a2s_wait_step:
  obtains (ret) res where "\<And>rs. snd (a2s_wait query (r # rs)) = Some res" "res = None \<longrightarrow> info_round r"
      "\<And>rs. set (fst (a2s_wait query (r # rs))) \<subseteq> {query}"
    | (cont) q where "\<not> a2s_ended_round r" "\<And>rs. snd (a2s_wait query (r # rs)) = snd (a2s_wait q rs)"
      "q = a2sInfoQuery \<or> (\<exists>response. ar_read r = A2SMsg response False \<and> 9 \<le> length response
          \<and> q = a2sInfoQuery @ take 4 (drop 5 response))"
      "\<And>rs. set (fst (a2s_wait query (r # rs))) \<subseteq> insert query (set (fst (a2s_wait q rs)))"
proof (cases "ar_ctx r")
  case (Some e)
  show ?thesis by (rule ret [of "Some (Wrap ''wait for A2S readiness'' e)"]) (simp_all add: Some)
next
  case c: None
  have retry: ?thesis
    if "\<And>rs. a2s_wait query (r # rs) = (case waitForRetry (ar_retry r) of
         Some e \<Rightarrow> (sent, Some (Some (Wrap ''wait for A2S readiness'' e)))
       | None \<Rightarrow> (let (more, res) = a2s_wait a2sInfoQuery rs in (sent @ more, res)))"
      "set sent \<subseteq> {query}" for sent
  proof (cases "ar_retry r")
    case None
    show ?thesis by (rule cont [of a2sInfoQuery])
      (use that None c in \<open>auto simp: waitForRetry_def a2s_ended_round_def case_prod_beta\<close>)
  next
    case (Some e)
    show ?thesis by (rule ret [of "Some (Wrap ''wait for A2S readiness'' e)"])
      (use that Some in \<open>auto simp: waitForRetry_def\<close>)
  qed
  show ?thesis
  proof (cases "ar_write r")
    case (Some e)
    show ?thesis by (rule retry [of "[]"]) (simp_all add: c Some)
  next
    case w: None
    show ?thesis
    proof (cases "ar_deadline r")
      case (Some e)
      show ?thesis by (rule ret [of "Some (Wrap ''set A2S read deadline'' e)"]) (simp_all add: c w Some)
    next
      case d: None
      show ?thesis
      proof (cases "ar_read r")
        case (A2SErr e timeout)
        show ?thesis
        proof (cases "ar_ctx_read r")
          case (Some x)
          show ?thesis by (rule ret [of "Some (Wrap ''wait for A2S readiness'' x)"])
            (simp_all add: c w d A2SErr Some)
        next
          case None
          show ?thesis
          proof (cases timeout)
            case True
            show ?thesis by (rule cont [of a2sInfoQuery])
              (auto simp: c w d A2SErr None True a2s_ended_round_def case_prod_beta)
          next
            case False
            show ?thesis by (rule retry [of "[query]"]) (simp_all add: c w d A2SErr None False)
          qed
        qed
      next
        case (A2SMsg response trunc)
        consider (bad) "bad_header response trunc"
          | (info) "\<not> bad_header response trunc" "response ! 4 = 0x49" "validA2SInfo response"
          | (chal) "\<not> bad_header response trunc" "response ! 4 = 0x41" "9 \<le> length response"
          | (other) "\<not> bad_header response trunc" "\<not> (response ! 4 = 0x49 \<and> validA2SInfo response)"
              "\<not> (response ! 4 = 0x41 \<and> 9 \<le> length response)" by blast
        then show ?thesis
        proof cases
          case bad
          show ?thesis by (rule retry [of "[query]"]) (simp_all add: c w d A2SMsg bad)
        next
          case info
          show ?thesis by (rule ret [of None])
            (use good_header [OF info(1)] info in \<open>auto simp: c w d A2SMsg info_round_def\<close>)
        next
          case chal
          show ?thesis by (rule cont [of "a2sInfoQuery @ take 4 (drop 5 response)"])
            (use good_header [OF chal(1)] chal in
              \<open>auto simp: c w d A2SMsg a2s_ended_round_def case_prod_beta\<close>)
        next
          case other
          show ?thesis by (rule retry [of "[query]"]) (use other in \<open>auto simp: c w d A2SMsg\<close>)
        qed
      qed
    qed
  qed
qed

lemma a2s_wait_success:
  "snd (a2s_wait query rs) = Some None \<Longrightarrow> \<exists>r \<in> set rs. info_round r"
proof (induction rs arbitrary: query)
  case (Cons r rs)
  show ?case using Cons by (cases rule: a2s_wait_step [of query r]) auto
qed simp

lemma a2s_wait_returns:
  "a2s_ended_round r \<Longrightarrow> \<exists>res. snd (a2s_wait query (rs @ [r])) = Some res"
proof (induction rs arbitrary: query)
  case Nil
  then show ?case by (auto simp: a2s_ended_round_def)
next
  case (Cons r' rs)
  then show ?case by (cases rule: a2s_wait_step [of query r']) auto
qed

lemma a2s_wait_append: "snd (a2s_wait query rs) = Some res \<Longrightarrow> snd (a2s_wait query (rs @ rs')) = Some res"
proof (induction rs arbitrary: query)
  case (Cons r rs)
  then show ?case by (cases rule: a2s_wait_step [of query r]) auto
qed simp

interpretation a2s: waiting_probe "\<lambda>rs. snd (A2S_WaitReady None rs)" info_round a2s_ended_round
  by unfold_locales (auto simp: A2S_WaitReady_def intro: a2s_wait_success a2s_wait_returns a2s_wait_append)

section \<open>What a valid A2S answer is\<close>

definition cstrings :: "bytes list \<Rightarrow> bytes" where
  "cstrings ss = concat (map (\<lambda>s. s @ [0]) ss)"

lemma scan_zero_eq: "scan_zero r i = i + length (takeWhile (\<lambda>b. b \<noteq> 0) (drop i r))"
proof (induction r i rule: scan_zero.induct)
  case (1 r i)
  show ?case
  proof (cases "i < length r")
    case True
    then have "drop i r = r ! i # drop (Suc i) r" by (simp add: Cons_nth_drop_Suc)
    then show ?thesis using 1 True by (subst scan_zero.simps) simp
  qed (simp add: scan_zero.simps [of r i])
qed

lemma takeWhile_zero: "(0 :: byte) \<notin> set s \<Longrightarrow> takeWhile (\<lambda>b. b \<noteq> 0) (s @ 0 # rest) = s"
  by (induction s) auto

lemma scan_zero_found:
  assumes "i \<le> length r"
  shows "scan_zero r i < length r \<longleftrightarrow> (\<exists>s rest. drop i r = s @ 0 # rest \<and> 0 \<notin> set s)"
proof -
  let ?xs = "drop i r" and ?s = "takeWhile (\<lambda>b. b \<noteq> 0) (drop i r)"
  have "scan_zero r i < length r \<longleftrightarrow> length ?s < length ?xs"
    using assms by (auto simp: scan_zero_eq)
  also have "\<dots> \<longleftrightarrow> (\<exists>s rest. ?xs = s @ 0 # rest \<and> 0 \<notin> set s)"
  proof
    assume "length ?s < length ?xs"
    then have "?xs = ?s @ ?xs ! length ?s # drop (Suc (length ?s)) ?xs" "?xs ! length ?s = 0"
      using nth_length_takeWhile [of "\<lambda>b. b \<noteq> 0" ?xs]
      by (metis append_take_drop_id Cons_nth_drop_Suc takeWhile_eq_take, blast)
    then show "\<exists>s rest. ?xs = s @ 0 # rest \<and> 0 \<notin> set s"
      by (metis (mono_tags, lifting) set_takeWhileD)
  next
    assume "\<exists>s rest. ?xs = s @ 0 # rest \<and> 0 \<notin> set s"
    then show "length ?s < length ?xs" by (auto simp: takeWhile_zero simp del: length_drop)
  qed
  finally show ?thesis .
qed

lemma scan_zero_at:
  "drop i r = s @ 0 # rest \<Longrightarrow> 0 \<notin> set s \<Longrightarrow> scan_zero r i = i + length s"
  by (simp add: scan_zero_eq takeWhile_zero)

lemma skip_strings_iff:
  assumes "i \<le> length r"
  shows "skip_strings n r i = Some j \<longleftrightarrow>
    j \<le> length r \<and> (\<exists>ss. length ss = n \<and> (\<forall>s \<in> set ss. 0 \<notin> set s) \<and> drop i r = cstrings ss @ drop j r)"
  using assms
proof (induction n arbitrary: i)
  case 0
  then show ?case by (auto simp: cstrings_def dest: arg_cong [where f = length])
next
  case (Suc n)
  show ?case
  proof (cases "scan_zero r i < length r")
    case False
    then have "\<nexists>s rest. drop i r = s @ 0 # rest \<and> 0 \<notin> set s"
      using scan_zero_found [OF Suc.prems] by blast
    then have "\<not> (\<exists>ss. length ss = Suc n \<and> (\<forall>s \<in> set ss. 0 \<notin> set s) \<and> drop i r = cstrings ss @ drop j r)"
      by (fastforce simp: length_Suc_conv cstrings_def)
    with False show ?thesis by (simp add: Let_def)
  next
    case True
    then obtain s rest where s: "drop i r = s @ 0 # rest" "0 \<notin> set s"
      using scan_zero_found [OF Suc.prems] by blast
    have sz: "scan_zero r i = i + length s" using s by (rule scan_zero_at)
    have rest: "drop (i + length s + 1) r = rest"
      using arg_cong [OF s(1), of "drop (length s + 1)"] by (simp add: add_ac)
    have uniq: "t = s \<and> u = rest" if "s @ 0 # rest = t @ 0 # u" "0 \<notin> set t" for t u
      using that s(2) takeWhile_zero [of s rest] takeWhile_zero [of t u] by auto
    have "skip_strings (Suc n) r i = skip_strings n r (i + length s + 1)"
      using True by (simp add: sz)
    also have "\<dots> = Some j \<longleftrightarrow> j \<le> length r \<and> (\<exists>ss. length ss = n \<and> (\<forall>s \<in> set ss. 0 \<notin> set s)
        \<and> rest = cstrings ss @ drop j r)"
      using Suc.IH [of "i + length s + 1"] True by (simp only: sz rest)
    also have "(\<exists>ss. length ss = n \<and> (\<forall>s \<in> set ss. 0 \<notin> set s) \<and> rest = cstrings ss @ drop j r)
      \<longleftrightarrow> (\<exists>ss. length ss = Suc n \<and> (\<forall>s \<in> set ss. 0 \<notin> set s) \<and> drop i r = cstrings ss @ drop j r)"
      (is "?L \<longleftrightarrow> ?R")
    proof
      assume ?L
      then obtain ss where "length ss = n" "\<forall>s \<in> set ss. 0 \<notin> set s" "rest = cstrings ss @ drop j r" by blast
      with s show ?R by (intro exI [of _ "s # ss"]) (simp add: cstrings_def)
    next
      assume ?R
      then obtain t ts where "length ts = n" "0 \<notin> set t" "\<forall>s \<in> set ts. 0 \<notin> set s"
          "drop i r = t @ 0 # cstrings ts @ drop j r"
        by (auto simp: length_Suc_conv cstrings_def)
      with uniq [of t "cstrings ts @ drop j r"] s(1) show ?L by auto
    qed
    finally show ?thesis .
  qed
qed

text \<open>
  C31: \<open>validA2SInfo\<close> accepts exactly the datagrams of the form: six header bytes with type
  0x49, four zero-terminated strings (name, map, folder, game), nine bytes of fixed fields,
  a zero-terminated version, and anything after it; it never reads past the end.
\<close>

theorem validA2SInfo_iff:
  "validA2SInfo response \<longleftrightarrow>
     (\<exists>header strings fixed version rest.
        response = header @ cstrings strings @ fixed @ version @ 0 # rest
        \<and> length header = 6 \<and> header ! 4 = 0x49 \<and> length strings = 4
        \<and> (\<forall>s \<in> set strings. 0 \<notin> set s) \<and> length fixed = 9 \<and> 0 \<notin> set version)"
    (is "?valid \<longleftrightarrow> ?spec")
proof
  assume ?valid
  then obtain j where len: "6 \<le> length response" "response ! 4 = 0x49"
    and j: "skip_strings 4 response 6 = Some j" "j + 9 \<le> length response"
    and v: "scan_zero response (j + 9) < length response"
    by (auto simp: validA2SInfo_def split: if_splits option.splits)
  from j(1) obtain ss where ss: "length ss = 4" "\<forall>s \<in> set ss. 0 \<notin> set s"
      "drop 6 response = cstrings ss @ drop j response"
    using skip_strings_iff [OF len(1)] by auto
  from v obtain ver rest where ver: "drop (j + 9) response = ver @ 0 # rest" "0 \<notin> set ver"
    using scan_zero_found [OF j(2)] by blast
  have "response = take 6 response @ cstrings ss @ take 9 (drop j response) @ ver @ 0 # rest"
    using ss(3) ver(1) by (metis append_take_drop_id drop_drop add.commute)
  moreover have "length (take 9 (drop j response)) = 9" using j(2) by simp
  ultimately show ?spec using len ss ver(2)
    by (intro exI [of _ "take 6 response"] exI [of _ ss] exI [of _ "take 9 (drop j response)"] exI) auto
next
  assume ?spec
  then obtain header ss fixed ver rest where r: "response = header @ cstrings ss @ fixed @ ver @ 0 # rest"
    and h: "length header = 6" "header ! 4 = 0x49" and ss: "length ss = 4" "\<forall>s \<in> set ss. 0 \<notin> set s"
    and f: "length fixed = 9" and ver: "0 \<notin> set ver" by blast
  let ?j = "6 + length (cstrings ss)"
  have "drop 6 response = cstrings ss @ drop ?j response" using r h(1) by simp
  then have "skip_strings 4 response 6 = Some ?j"
    using skip_strings_iff [of 6 response 4 ?j] ss r h(1) by auto
  moreover have "drop (?j + 9) response = ver @ 0 # rest" using r h(1) f by (simp add: add_ac)
  then have "scan_zero response (?j + 9) < length response"
    using scan_zero_found [of "?j + 9" response] ver r h(1) f by auto
  ultimately show ?valid using r h f by (simp add: validA2SInfo_def nth_append)
qed

theorem validA2SInfo_iff_witness:
  "validA2SInfo ([255, 255, 255, 255, 0x49, 17] @ cstrings [[65], [66], [], [67]] @ replicate 9 1 @ [49] @ 0 # [2])"
  unfolding validA2SInfo_iff
  by (intro exI [of _ "[255, 255, 255, 255, 0x49, 17]"] exI [of _ "[[65], [66], [], [67]]"] exI [of _ "replicate 9 1"]
      exI [of _ "[49]"] exI [of _ "[2]"]) simp

section \<open>Properties\<close>

text \<open>
  The Pterodactyl probe answers ready exactly when the context is live and the panel
  reports \<open>running\<close>. Its error is inconclusive exactly when the state could not be learned
  (the context ended or the status query failed), never for a recognised other state, and
  it is permanent exactly when the status error was.
\<close>

theorem Probe_classification:
  "(Probe ctx_err status = None \<longleftrightarrow> ctx_err = None \<and> status = Inr StateRunning)
   \<and> (backendReadinessInconclusive (Probe ctx_err status) \<longleftrightarrow>
        ctx_err \<noteq> None \<or> (\<exists>e. status = Inl e))
   \<and> (ctx_err = None \<longrightarrow> (IsPermanent (Probe ctx_err status) \<longleftrightarrow>
        (\<exists>e. status = Inl e \<and> IsPermanent (Some e))))"
  by (auto simp: Probe_def split: option.splits sum.splits)

theorem Probe_classification_witness:
  "\<not> IsPermanent (Probe None (Inr StateStopping)) \<and> IsPermanent (Probe None (Inl (PermanentError EOF)))"
  using Probe_classification [of None "Inr StateStopping"]
    Probe_classification [of None "Inl (PermanentError EOF)"] by simp

text \<open>
  C29: \<open>WaitReady\<close> of the Pterodactyl probe is sound and ends: it returns without an error
  only after an iteration in which the panel reported \<open>running\<close> under a live context; a
  permanent status error is returned at once; and once some iteration finds its context
  ended it has returned.
\<close>

theorem WaitReady_sound_and_ends:
  "(WaitReady rounds = Some None \<longrightarrow> (\<exists>r \<in> set rounds. wr_ctx r = None \<and> wr_status r = Inr StateRunning))
   \<and> ((\<exists>r \<in> set rounds. wr_ctx_after r \<noteq> None \<or> wr_retry r \<noteq> None) \<longrightarrow>
        (\<exists>res. WaitReady rounds = Some res))
   \<and> (wr_ctx r = None \<and> wr_ctx_after r = None \<and> wr_status r = Inl e \<and> IsPermanent (Some e) \<longrightarrow>
        WaitReady (r # rounds) = Some (Probe None (Inl e)))"
  using ppw.success [of rounds] ppw.wait_returns [of _ rounds]
  unfolding running_round_def ended_round_def by (auto simp: Probe_def)

definition ex_round :: wait_round where
  "ex_round = \<lparr>wr_ctx = None, wr_status = Inr StateStarting, wr_ctx_after = None,
               wr_retry = Some DeadlineExceeded\<rparr>"

theorem WaitReady_sound_and_ends_witness:
  "\<exists>res. WaitReady [ex_round\<lparr>wr_retry := None\<rparr>, ex_round] = Some res"
  using WaitReady_sound_and_ends [of "[ex_round\<lparr>wr_retry := None\<rparr>, ex_round]"]
  by (auto simp: ex_round_def)

lemma a2s_attempts_queries:
  "length (fst (a2s_attempts n q [r1, r2])) \<le> 2
   \<and> set (fst (a2s_attempts 0 q [r1, r2])) \<subseteq> {q} \<union> {a2sInfoQuery @ take 4 (drop 5 response) | response.
        ar_read r1 = A2SMsg response False \<and> 9 \<le> length response}"
  by (auto simp: Let_def bad_header_def split: option.splits a2s_read.splits prod.splits if_splits)

lemma a2s_attempts_success:
  "snd (a2s_attempts n q rs) = None \<Longrightarrow>
     \<exists>r \<in> set rs. \<exists>response. ar_read r = A2SMsg response False \<and> validA2SInfo response"
  by (induction n q rs rule: a2s_attempts.induct)
    (auto simp: bad_header_def split: option.splits a2s_read.splits prod.splits if_splits)

text \<open>
  C30: A single A2S check writes at most two queries: the info query, then at most once the
  info query with the four challenge bytes of the first answer. It succeeds only on a
  complete, untruncated info answer, and the waiting loop succeeds only on such an answer
  too and has returned once an iteration finds its context ended.
\<close>

theorem A2S_bounded_and_sound:
  "length (fst (A2S_Probe ctx_err dial_err dl_err r1 r2)) \<le> 2
   \<and> set (fst (A2S_Probe ctx_err dial_err dl_err r1 r2)) \<subseteq> {a2sInfoQuery}
        \<union> {a2sInfoQuery @ take 4 (drop 5 response) | response.
             ar_read r1 = A2SMsg response False \<and> 9 \<le> length response}
   \<and> (snd (A2S_Probe ctx_err dial_err dl_err r1 r2) = None \<longrightarrow>
        (\<exists>r \<in> {r1, r2}. \<exists>response. ar_read r = A2SMsg response False \<and> validA2SInfo response))
   \<and> (snd (A2S_WaitReady dial_err rounds) = Some None \<longrightarrow>
        (\<exists>r \<in> set rounds. \<exists>response. ar_read r = A2SMsg response False \<and> validA2SInfo response))
   \<and> ((\<exists>r \<in> set rounds. ar_ctx r \<noteq> None) \<longrightarrow> (\<exists>res. snd (A2S_WaitReady dial_err rounds) = Some res))"
proof -
  have "snd (A2S_WaitReady dial_err rounds) = Some None \<longrightarrow>
        (\<exists>r \<in> set rounds. \<exists>response. ar_read r = A2SMsg response False \<and> validA2SInfo response)"
    using a2s.success [of rounds] by (cases dial_err) (auto simp: A2S_WaitReady_def info_round_def)
  moreover have "(\<exists>r \<in> set rounds. ar_ctx r \<noteq> None) \<longrightarrow> (\<exists>res. snd (A2S_WaitReady dial_err rounds) = Some res)"
    using a2s.wait_returns [of _ rounds]
    by (cases dial_err) (auto simp: A2S_WaitReady_def a2s_ended_round_def)
  moreover have "snd (A2S_Probe ctx_err dial_err dl_err r1 r2) = None \<longrightarrow>
        (\<exists>r \<in> {r1, r2}. \<exists>response. ar_read r = A2SMsg response False \<and> validA2SInfo response)"
    using a2s_attempts_success [of 0 a2sInfoQuery "[r1, r2]"]
    unfolding A2S_Probe_def by (cases ctx_err; cases dial_err; cases dl_err) (simp_all del: a2s_attempts.simps)
  ultimately show ?thesis
    using a2s_attempts_queries [of 0 a2sInfoQuery r1 r2]
    unfolding A2S_Probe_def by (cases ctx_err; cases dial_err; cases dl_err) (simp_all del: a2s_attempts.simps)
qed

definition ex_a2s_round :: a2s_round where
  "ex_a2s_round = \<lparr>ar_ctx = Some Canceled, ar_write = None, ar_deadline = None,
                   ar_read = A2SErr EOF True, ar_ctx_read = None, ar_retry = None\<rparr>"

theorem A2S_bounded_and_sound_witness:
  "\<exists>res. snd (A2S_WaitReady None [ex_a2s_round\<lparr>ar_ctx := None\<rparr>, ex_a2s_round]) = Some res"
  using A2S_bounded_and_sound [of None None None ex_a2s_round ex_a2s_round
      "[ex_a2s_round\<lparr>ar_ctx := None\<rparr>, ex_a2s_round]"]
  by (simp add: ex_a2s_round_def)

end
