(* ===== verification/App.thy ===== *)
theory App
  imports Health Config Palworld Readiness ProxyInv
begin

text \<open>
  cmd/main.go: what the command puts together. The constructors map the configuration to the
  detector, the readiness probe and the proxy's options; \<open>run\<close> is the whole life of the
  process as the sequence of its effects on sockets, on the health flag and on the two
  servers, with the results of the system calls and of the servers as arguments.
\<close>

section \<open>Addresses as text\<close>

text \<open>
  \<open>IP.String\<close>: dotted decimal for an IPv4 address (also one mapped into IPv6), otherwise eight
  groups in hexadecimal with the first longest run of at least two zero groups as a double
  colon; \<open>net.JoinHostPort\<close> puts brackets round a host with a colon.
\<close>

fun print_hex :: "nat \<Rightarrow> string" where
  "print_hex n = (if n < 16 then [hex_digit n] else print_hex (n div 16) @ [hex_digit (n mod 16)])"

declare print_hex.simps [simp del]

fun join_sep :: "string \<Rightarrow> string list \<Rightarrow> string" where
  "join_sep sep [] = []"
| "join_sep sep [p] = p"
| "join_sep sep (p # ps) = p @ sep @ join_sep sep ps"

fun ip_groups :: "bytes \<Rightarrow> nat list" where
  "ip_groups (a # b # rest) = (unat a * 256 + unat b) # ip_groups rest"
| "ip_groups _ = []"

fun longest_zeros :: "nat \<Rightarrow> nat list \<Rightarrow> nat \<times> nat \<Rightarrow> nat \<times> nat" where
  "longest_zeros i [] best = best"
| "longest_zeros i (g # gs) best =
     (let l = length (takeWhile (\<lambda>x. x = 0) (g # gs))
      in longest_zeros (Suc i) gs (if 2 \<le> l \<and> snd best < l then (i, l) else best))"

definition IP_String :: "ip option \<Rightarrow> string" where
  "IP_String a =
     (case a of
        None \<Rightarrow> ''<nil>''
      | Some b \<Rightarrow>
          (case To4 b of
             Some v4 \<Rightarrow> join_sep ''.'' (map (\<lambda>x. print_nat (unat x)) v4)
           | None \<Rightarrow>
               if length b \<noteq> 16 then ''?'' @ hex_EncodeToString b
               else let gs = ip_groups b; (s, l) = longest_zeros 0 gs (0, 0)
                    in if l = 0 then join_sep '':'' (map print_hex gs)
                       else join_sep '':'' (map print_hex (take s gs)) @ ''::''
                            @ join_sep '':'' (map print_hex (drop (s + l) gs))))"

definition JoinHostPort :: "string \<Rightarrow> string \<Rightarrow> string" where
  "JoinHostPort host port =
     (if List.member host (CHR '':'') \<or> List.member host (CHR ''%'') then ''['' @ host @ '']:'' @ port
      else host @ '':'' @ port)"

section \<open>Constructors\<close>

definition newPalworldDetector :: "config \<Rightarrow> goerror + palworld_game" where
  "newPalworldDetector cfg = NewConfiguredPalworldGame
     \<lparr>po_WakePolicy = cfg_WakePolicy cfg, po_Signatures = cfg_WakeSignatures cfg,
      po_LogUnmatchedPrefixes = cfg_LogUnmatchedPrefixes cfg,
      po_DiagnosticPrefixBytes = cfg_DiagnosticPrefixBytes cfg, po_DiagnosticInterval = 0\<rparr>"

datatype backend_readiness = NoReadiness | PterodactylReadiness ptero_probe | A2SReadiness a2s_probe

definition newBackendReadiness ::
    "netlib \<Rightarrow> config \<Rightarrow> ip option \<Rightarrow> pterodactyl_client \<Rightarrow> goerror + backend_readiness" where
  "newBackendReadiness lib cfg backend client =
     (if cfg_BackendReadinessMode cfg = ''delay'' then Inr NoReadiness
      else if cfg_BackendReadinessMode cfg = ''pterodactyl'' then
        map_sum id PterodactylReadiness (NewPterodactylProbe (Some client) (cfg_StartupPollInterval cfg))
      else if cfg_BackendReadinessMode cfg = ''a2s'' then
        (let address = (if cfg_BackendReadinessAddr cfg = [] then JoinHostPort (IP_String backend) ''27015''
                        else cfg_BackendReadinessAddr cfg)
         in map_sum id A2SReadiness (NewA2SProbe lib address (cfg_StartupPollInterval cfg)))
      else Inl (ErrText ''unsupported backend readiness mode''))"

text \<open>
  The options that the configuration leaves out (the sweep interval, the retry delay and the
  cooldown) are Go's zero values. A detector enters the proxy by its verdict on packets.
\<close>

definition proxyOptionsFromConfig ::
    "config \<Rightarrow> conn \<Rightarrow> udp_addr \<Rightarrow> palworld_game \<Rightarrow> backend_readiness \<Rightarrow> options" where
  "proxyOptionsFromConfig cfg listener backend detector readiness =
     \<lparr>Listener = Some listener, BackendAddr = Some backend, has_Controller = True,
      Detector = Some (game_accepts detector), has_Readiness = (readiness \<noteq> NoReadiness),
      MaxSessions = cfg_MaxSessions cfg, MaxPacketSize = cfg_MaxPacketSize cfg,
      IdleTimeout = cfg_IdleTimeout cfg, SweepInterval = 0, AutoStopDelay = cfg_AutoStopDelay cfg,
      AutoStopRetryDelay = 0, StartupTimeout = cfg_StartupTimeout cfg,
      StartupPollInterval = cfg_StartupPollInterval cfg, StartupSettleDelay = cfg_StartupSettleDelay cfg,
      StartupFailureCooldown = 0, StartupBufferPackets = cfg_StartupBufferPackets cfg,
      StartupBufferBytesPerSession = cfg_StartupBufferBytesPerSession cfg,
      StartupBufferBytesGlobal = cfg_StartupBufferBytesGlobal cfg\<rparr>"

section \<open>The life of the process\<close>

datatype app_effect =
    OpenedUDP conn
  | ClosedUDP conn
  | OpenedHealth
  | SetReadyFlag bool
  | StartedHealthServer
  | StartedProxy proxy
  | CancelledContext
  | ShutHealthServer

datatype first_event = ParentDone | ProxyReturned "goerror option" | HealthReturned "goerror option"

text \<open>
  What the process meets: the results of the two listens, which channel the first \<open>select\<close>
  receives from, the result of \<open>Shutdown\<close>, and for the servers that had not returned yet
  whether they return before the shutdown context ends (\<open>None\<close>: the deadline comes first).
\<close>

record run_env =
  re_ListenUDP :: "goerror + conn"
  re_ListenTCP :: "goerror option"
  re_first :: first_event
  re_Shutdown :: "goerror option"
  re_proxy :: "goerror option option"
  re_health :: "goerror option option"

definition report :: "goerror \<Rightarrow> string \<Rightarrow> goerror option \<Rightarrow> goerror option" where
  "report expected msg err =
     (case err of
        Some e \<Rightarrow> if \<not> errors_Is (Some e) expected then Some (Wrap msg e) else None
      | None \<Rightarrow> None)"

text \<open>The first \<open>select\<close>: the result so far, and which of the two servers has returned.\<close>

definition first_select :: "first_event \<Rightarrow> goerror option \<times> bool \<times> bool" where
  "first_select ev =
     (case ev of
        ParentDone \<Rightarrow> (None, False, False)
      | ProxyReturned err \<Rightarrow> (report Canceled ''serve UDP proxy'' err, True, False)
      | HealthReturned err \<Rightarrow> (report ErrServerClosed ''serve health endpoint'' err, False, True))"

definition join_report :: "goerror option \<Rightarrow> goerror option \<Rightarrow> goerror option" where
  "join_report result err = (case err of None \<Rightarrow> result | Some e \<Rightarrow> errors_Join result (Some e))"

definition await :: "goerror \<Rightarrow> string \<Rightarrow> string \<Rightarrow> goerror option option \<Rightarrow> goerror option" where
  "await expected msg late r =
     (case r of Some err \<Rightarrow> report expected msg err | None \<Rightarrow> Some (Wrap late DeadlineExceeded))"

definition run_shutdown :: "conn \<Rightarrow> run_env \<Rightarrow> app_effect list \<times> goerror option" where
  "run_shutdown listener env =
     (let (result, proxyDone, healthDone) = first_select (re_first env);
          result1 = join_report result (map_option (Wrap ''shutdown health endpoint'') (re_Shutdown env));
          result2 = (if proxyDone then result1
                     else join_report result1 (await Canceled ''shutdown UDP proxy'' ''shutdown UDP proxy'' (re_proxy env)));
          result3 = (if healthDone then result2
                     else join_report result2 (await ErrServerClosed ''shutdown health endpoint''
                            ''wait for health endpoint shutdown'' (re_health env)))
      in ([SetReadyFlag False, CancelledContext, ShutHealthServer, ClosedUDP listener], result3))"

definition run_listen ::
    "run_env \<Rightarrow> config \<Rightarrow> palworld_game \<Rightarrow> backend_readiness \<Rightarrow> app_effect list \<times> goerror option" where
  "run_listen env cfg detector readiness =
     (case re_ListenUDP env of
        Inl e \<Rightarrow> ([], Some (Wrap ''listen for Palworld UDP'' e))
      | Inr listener \<Rightarrow>
          (case New (proxyOptionsFromConfig cfg listener (cfg_ServerAddr cfg) detector readiness) of
             Inl e \<Rightarrow> ([OpenedUDP listener, ClosedUDP listener], Some (Wrap ''configure UDP proxy'' e))
           | Inr instance \<Rightarrow>
               (case re_ListenTCP env of
                  Some e \<Rightarrow> ([OpenedUDP listener, ClosedUDP listener], Some (Wrap ''listen for health checks'' e))
                | None \<Rightarrow>
                    let (effects, result) = run_shutdown listener env
                    in ([OpenedUDP listener, OpenedHealth, SetReadyFlag True, StartedHealthServer, StartedProxy instance]
                        @ effects, result))))"

definition run :: "netlib \<Rightarrow> oslib \<Rightarrow> string list \<Rightarrow> string list \<Rightarrow> run_env \<Rightarrow> app_effect list \<times> goerror option" where
  "run lib os dorder iorder env =
     (let r = LoadConfig lib os dorder iorder; cfg = lr_cfg r
      in case lr_err r of
           Some e \<Rightarrow> ([], Some (Wrap ''load config'' e))
         | None \<Rightarrow>
             if cfg_Game cfg \<noteq> ''palworld'' then ([], Some (ErrText ''unsupported game''))
             else case newPalworldDetector cfg of
               Inl e \<Rightarrow> ([], Some (Wrap ''configure Palworld detector'' e))
             | Inr detector \<Rightarrow>
                 (case NewPterodactylClient lib (cfg_Pterodactyl cfg) None of
                    Inl e \<Rightarrow> ([], Some (Wrap ''configure Pterodactyl client'' e))
                  | Inr client \<Rightarrow>
                      (case ResolveUDPAddr lib (cfg_ListenAddr cfg) of
                         Inl e \<Rightarrow> ([], Some (Wrap ''resolve UDP listener'' e))
                       | Inr listenAddr \<Rightarrow>
                           (case ResolveUDPAddr lib (cfg_ServerAddr cfg) of
                              Inl e \<Rightarrow> ([], Some (Wrap ''resolve Palworld backend'' e))
                            | Inr backendAddr \<Rightarrow>
                                (case newBackendReadiness lib cfg backendAddr client of
                                   Inl e \<Rightarrow> ([], Some (Wrap ''configure Palworld readiness'' e))
                                 | Inr readiness \<Rightarrow> run_listen env cfg detector readiness)))))"

text \<open>
  \<open>main\<close>: the health check or the proxy. \<open>Some\<close> of the result is an error that
  \<open>logrus.Fatal\<close> reports, ending the process with status 1.
\<close>

definition default_health_url :: string where
  "default_health_url = ''http://127.0.0.1:8080/healthz''"

definition main ::
    "netlib \<Rightarrow> oslib \<Rightarrow> string list \<Rightarrow> string list \<Rightarrow> (http_response \<Rightarrow> bool) \<Rightarrow> run_env \<Rightarrow> string list \<Rightarrow> goerror option" where
  "main lib os dorder iorder redirects env args =
     (if length args > 1 \<and> args ! 1 = ''healthcheck'' then
        snd (checkHealth lib redirects (if length args > 2 then args ! 2 else default_health_url))
      else snd (run lib os dorder iorder env))"

section \<open>A valid configuration builds the program\<close>

lemma LoadConfig_valid:
  "lr_err (LoadConfig lib os d i) = None \<Longrightarrow> Validate lib (lr_cfg (LoadConfig lib os d i)) = None"
  by (auto simp: LoadConfig_def load_rest_def load_failed_def split: sum.splits prod.splits option.splits)

lemma Validate_parts:
  assumes "Validate lib cfg = None"
  shows "Validate_network lib cfg = None" "Validate_limits cfg = None" "Validate_wake cfg = None"
    "Validate_probes lib cfg = None" "Validate_panel lib cfg = None"
  using assms by (auto simp: Validate_def)

lemma signatures_valid_decodes: "signatures_valid es \<Longrightarrow> \<exists>sigs. list_all2 decodes_to es sigs"
proof (induction es)
  case (Cons e es)
  from Cons.prems obtain sig where "decodes_to e sig" "signatures_valid es"
    by (auto simp: decodes_to_def split: sum.splits if_splits)
  with Cons.IH show ?case by blast
qed (auto intro: exI [of _ "[]"])

lemma valid_detector:
  assumes "Validate_wake cfg = None"
  obtains g where "newPalworldDetector cfg = Inr g" "game_wf g"
proof -
  obtain sigs where "list_all2 decodes_to (cfg_WakeSignatures cfg) sigs"
    using assms signatures_valid_decodes by (auto simp: Validate_wake_def split: if_splits)
  then have "\<exists>g. newPalworldDetector cfg = Inr g"
    using assms unfolding newPalworldDetector_def NewConfiguredPalworldGame_Inr
    by (auto simp: Validate_wake_def split: if_splits)
  then show ?thesis using that NewConfigured_wf by (auto simp: newPalworldDetector_def)
qed

lemma valid_options:
  "Validate_limits cfg = None \<Longrightarrow> New_accepts (proxyOptionsFromConfig cfg listener backend g r)"
  by (auto simp: Validate_limits_def New_accepts_def proxyOptionsFromConfig_def split: if_splits)

lemma valid_proxy:
  assumes "Validate_limits cfg = None"
  obtains p where "New (proxyOptionsFromConfig cfg listener backend g r) = Inr p" "proxy_inv 0 p"
    "opts p = default_options (proxyOptionsFromConfig cfg listener backend g r)"
  using New_cases [of "proxyOptionsFromConfig cfg listener backend g r"] valid_options [OF assms]
    proxy_inv_New that by auto

text \<open>What the client demands of the panel's settings beyond the validation.\<close>

definition panel_usable :: "netlib \<Rightarrow> pterodactyl_config \<Rightarrow> bool" where
  "panel_usable lib p = (case url_Parse lib (pc_BaseURL p) of
     Inl _ \<Rightarrow> False
   | Inr u \<Rightarrow> RawQuery u = [] \<and> Fragment u = [] \<and> safeServerID (pc_ServerID p))"

lemma valid_client:
  assumes "Validate_panel lib cfg = None"
  shows "(\<exists>client. NewPterodactylClient lib (cfg_Pterodactyl cfg) None = Inr client)
     \<longleftrightarrow> panel_usable lib (cfg_Pterodactyl cfg)"
  using assms by (auto simp: Validate_panel_def NewPterodactylClient_def panel_usable_def Let_def
      split: sum.splits if_splits)

text \<open>The address that the A2S probe asks: the configured one, or the backend's at port 27015.\<close>

definition a2s_address :: "config \<Rightarrow> ip option \<Rightarrow> string" where
  "a2s_address cfg backend =
     (if cfg_BackendReadinessAddr cfg = [] then JoinHostPort (IP_String backend) ''27015''
      else cfg_BackendReadinessAddr cfg)"

lemma valid_readiness:
  assumes "Validate lib cfg = None"
  shows "(\<exists>r. newBackendReadiness lib cfg backend client = Inr r)
     \<longleftrightarrow> (cfg_BackendReadinessMode cfg = ''a2s'' \<longrightarrow> (\<exists>a. ResolveUDPAddr lib (a2s_address cfg backend) = Inr a))"
proof -
  have "0 < cfg_StartupPollInterval cfg"
    using Validate_parts(2) [OF assms] by (auto simp: Validate_limits_def split: if_splits)
  moreover have "cfg_BackendReadinessMode cfg \<in> {''pterodactyl'', ''a2s'', ''delay''}"
    using Validate_parts(4) [OF assms] by (auto simp: Validate_probes_def split: sum.splits if_splits)
  ultimately show ?thesis
    by (auto simp: newBackendReadiness_def NewPterodactylProbe_def NewA2SProbe_def a2s_address_def Let_def
        split: sum.split)
qed

lemma valid_backend:
  assumes "Validate_network lib cfg = None"
  shows "\<exists>a b. ResolveUDPAddr lib (cfg_ListenAddr cfg) = Inr a \<and> ResolveUDPAddr lib (cfg_ServerAddr cfg) = Inr b \<and> specific_ip b"
  using assms by (auto simp: Validate_network_def split: sum.splits if_splits)

section \<open>Properties\<close>

text \<open>
  C20: A configuration that passes validation builds the program. The wake detector is
  constructed and well-formed, the listen address and a specific backend resolve, the proxy's
  constructor accepts the options made from it, with its invariant; the panel client is refused only for a base URL
  with a query or a fragment or a server ID with an unsafe character, and the readiness probe
  only when the A2S address does not resolve.
\<close>

theorem valid_config_builds:
  assumes "Validate lib cfg = None"
  shows "\<exists>g b. newPalworldDetector cfg = Inr g \<and> game_wf g
     \<and> (\<exists>a. ResolveUDPAddr lib (cfg_ListenAddr cfg) = Inr a)
     \<and> ResolveUDPAddr lib (cfg_ServerAddr cfg) = Inr b \<and> specific_ip b
     \<and> (\<forall>listener r. \<exists>p. New (proxyOptionsFromConfig cfg listener (cfg_ServerAddr cfg) g r) = Inr p \<and> proxy_inv 0 p)
     \<and> ((\<exists>client. NewPterodactylClient lib (cfg_Pterodactyl cfg) None = Inr client)
          \<longleftrightarrow> panel_usable lib (cfg_Pterodactyl cfg))
     \<and> (\<forall>client. (\<exists>r. newBackendReadiness lib cfg b client = Inr r)
          \<longleftrightarrow> (cfg_BackendReadinessMode cfg = ''a2s'' \<longrightarrow> (\<exists>a. ResolveUDPAddr lib (a2s_address cfg b) = Inr a)))"
proof -
  note parts = Validate_parts [OF assms]
  obtain g where g: "newPalworldDetector cfg = Inr g" "game_wf g" by (rule valid_detector [OF parts(3)])
  obtain a b where ab: "ResolveUDPAddr lib (cfg_ListenAddr cfg) = Inr a" "ResolveUDPAddr lib (cfg_ServerAddr cfg) = Inr b"
    "specific_ip b" using valid_backend [OF parts(1)] by blast
  have "\<forall>listener r. \<exists>p. New (proxyOptionsFromConfig cfg listener (cfg_ServerAddr cfg) g r) = Inr p \<and> proxy_inv 0 p"
    using valid_proxy [OF parts(2)] by metis
  then show ?thesis
    using g ab valid_client [OF parts(5)] valid_readiness [OF assms] by blast
qed

theorem valid_config_builds_witness:
  "\<exists>g. newPalworldDetector ex_config = Inr g \<and> game_wf g
     \<and> (\<forall>listener r. \<exists>p. New (proxyOptionsFromConfig ex_config listener (cfg_ServerAddr ex_config) g r) = Inr p \<and> proxy_inv 0 p)"
  using valid_config_builds [OF ex_config_valid] by blast

lemma run_cases:
  "(\<exists>e. run lib os d i env = ([], Some e))
   \<or> (\<exists>cfg g r. Validate lib cfg = None \<and> newPalworldDetector cfg = Inr g
        \<and> run lib os d i env = run_listen env cfg g r)"
proof (cases "lr_err (LoadConfig lib os d i)")
  case None
  let ?cfg = "lr_cfg (LoadConfig lib os d i)"
  have "(\<exists>e. run lib os d i env = ([], Some e))
   \<or> (\<exists>g r. newPalworldDetector ?cfg = Inr g \<and> run lib os d i env = run_listen env ?cfg g r)"
    using None by (simp add: run_def Let_def split: sum.split) blast
  then show ?thesis using LoadConfig_valid [OF None] by blast
qed (simp add: run_def)

text \<open>
  C21: The process releases what it takes, whatever happens. Its effects are one of three
  sequences: nothing at all, when the configuration cannot be used or the UDP socket cannot be
  opened; the UDP socket opened and closed, when the health socket cannot be opened; or the
  full life, in which the proxy is a constructed one satisfying its invariant, readiness is
  reported only after both sockets are open, and at the end is withdrawn first, before the
  context is cancelled, the health server shut down and the UDP socket closed. In the first
  two cases the result is an error.
\<close>

theorem run_releases_everything:
  "case run lib os d i env of (effects, result) \<Rightarrow>
     effects = [] \<and> result \<noteq> None
   \<or> (\<exists>l. effects = [OpenedUDP l, ClosedUDP l] \<and> re_ListenTCP env \<noteq> None \<and> result \<noteq> None)
   \<or> (\<exists>l p. proxy_inv 0 p \<and> Listener (opts p) = Some l
        \<and> effects = [OpenedUDP l, OpenedHealth, SetReadyFlag True, StartedHealthServer, StartedProxy p,
                     SetReadyFlag False, CancelledContext, ShutHealthServer, ClosedUDP l])"
proof (cases "\<exists>e. run lib os d i env = ([], Some e)")
  case True
  then show ?thesis by auto
next
  case False
  then obtain cfg g r where built: "Validate lib cfg = None" "run lib os d i env = run_listen env cfg g r"
    using run_cases by blast
  show ?thesis
  proof (cases "re_ListenUDP env")
    case (Inl e)
    then show ?thesis using built by (simp add: run_listen_def)
  next
    case (Inr l)
    obtain p where p: "New (proxyOptionsFromConfig cfg l (cfg_ServerAddr cfg) g r) = Inr p" "proxy_inv 0 p"
      "opts p = default_options (proxyOptionsFromConfig cfg l (cfg_ServerAddr cfg) g r)"
      by (rule valid_proxy [OF Validate_parts(2) [OF built(1)]])
    have "Listener (opts p) = Some l" by (simp add: p(3) default_options_eq proxyOptionsFromConfig_def)
    then show ?thesis using built Inr p
      by (cases "re_ListenTCP env") (simp_all add: run_listen_def run_shutdown_def Let_def split_beta)
  qed
qed

text \<open>When both servers return as expected, or not.\<close>

definition returns_as_expected :: "goerror \<Rightarrow> goerror option \<Rightarrow> bool" where
  "returns_as_expected expected err = (case err of None \<Rightarrow> True | Some e \<Rightarrow> errors_Is (Some e) expected)"

definition clean_run :: "run_env \<Rightarrow> bool" where
  "clean_run env \<longleftrightarrow> re_Shutdown env = None
     \<and> (case re_first env of
          ProxyReturned err \<Rightarrow> returns_as_expected Canceled err
        | _ \<Rightarrow> (\<exists>err. re_proxy env = Some err \<and> returns_as_expected Canceled err))
     \<and> (case re_first env of
          HealthReturned err \<Rightarrow> returns_as_expected ErrServerClosed err
        | _ \<Rightarrow> (\<exists>err. re_health env = Some err \<and> returns_as_expected ErrServerClosed err))"

lemma report_None: "report expected msg err = None \<longleftrightarrow> returns_as_expected expected err"
  by (simp add: report_def returns_as_expected_def split: option.split)

lemma await_None: "await expected msg late r = None \<longleftrightarrow> (\<exists>err. r = Some err \<and> returns_as_expected expected err)"
  by (auto simp: await_def report_None split: option.split)

lemma join_report_None: "join_report a b = None \<longleftrightarrow> a = None \<and> b = None"
  by (simp add: join_report_def split: option.split)

text \<open>
  No failure of a running process is lost. The result is \<open>nil\<close> exactly when the health
  server shuts down without an error and both servers return in time, the proxy with no error
  or a cancelled context and the health server with no error or as closed; any other ending,
  a server still running at the deadline included, is an error.
\<close>

theorem run_reports_every_failure:
  "snd (run_shutdown listener env) = None \<longleftrightarrow> clean_run env"
  by (cases "re_first env")
    (auto simp: run_shutdown_def first_select_def clean_run_def join_report_None await_None report_None Let_def)








end
