(* ===== verification/Spec2Isabelle.thy ===== *)
theory Spec2Isabelle
  imports ProxyProgress ProxyServe App
begin

text \<open>
  A verification of game-server-snooze: a UDP proxy that keeps a Palworld server asleep while
  nobody plays. It listens on a public UDP socket, starts the server through the Pterodactyl
  panel when a packet looks like a player joining, buffers that player's packets until the
  server is ready, relays both ways in one session per client, and stops the server some time
  after the last session has ended.

  \<^bold>\<open>Parts and how they interact.\<close> The command (cmd/main.go) loads a configuration (pkg/config),
  builds a wake detector (pkg/games), a panel client (pkg/server), a readiness probe
  (pkg/readiness) and the proxy (pkg/proxy) from it, and runs the proxy beside a health endpoint
  (pkg/proxy/health.go) that cmd/healthcheck.go asks. The proxy keeps its clients in a session
  store (pkg/session); each session owns a socket to the backend and two goroutines. The proxy
  itself is several goroutines: the listener, a sweeper of idle sessions, a monitor of the
  backend's health, one startup procedure at a time, a watcher per session and the callbacks of
  the auto-stop timer, on one mutable state under three locks.

  \<^bold>\<open>Theories.\<close>
  \<^item> Prelude: basic types, Go's clock and 64-bit arithmetic, Go maps as association lists behind
    the locale \<open>go_map\<close>, transition systems with reachability and the locale
    \<open>inductive_invariant\<close>.
  \<^item> GoErrors, GoStrings, GoDuration, GoNet: what the program uses of Go's library. Errors are a
    datatype with \<open>errors.Is\<close>, \<open>errors.As\<close> and \<open>errors.Join\<close>; trimming, splitting, hexadecimal and
    decimal text; durations as text, with the \<open>float64\<close> rounding of \<open>ParseDuration\<close> written out;
    IP addresses. The resolver, the HTTP transport and the parsers of URLs and JSON are fields of
    the record \<open>netlib\<close>, a parameter of what uses them.
  \<^item> Session (pkg/session/session.go): the record \<open>session\<close>, its operations, and an \<open>inductive\<close> step
    relation of everything that can happen to a session.
  \<^item> Store (pkg/session/store.go): the record \<open>store\<close> over a heap of sessions, its operations, the
    contract \<open>session_store\<close> the proxy relies on, and runs of store operations.
  \<^item> Palworld (pkg/games/palworld.go): the detector, under the contract \<open>wake_detector\<close>.
  \<^item> Pterodactyl (pkg/server/pterodactyl.go): the client, under the contract \<open>controller\<close>.
  \<^item> Readiness (pkg/readiness): both probes, under the contract \<open>waiting_probe\<close>.
  \<^item> Config (pkg/config/config.go): the record \<open>config\<close>, \<open>Validate\<close>, \<open>DefaultConfig\<close>,
    \<open>applyEnvOverrides\<close>, \<open>LoadConfig\<close>, \<open>RedactedString\<close>.
  \<^item> Health (pkg/proxy/health.go, cmd/healthcheck.go): the flag, the handler, the health check.
  \<^item> Proxy and ProxyLifecycle (pkg/proxy/proxy.go): the record \<open>proxy\<close> and one definition per
    critical section or function, in the order of the source; what is done under the mutex and
    what after it are separate definitions (\<open>failStartup_locked\<close>, \<open>openStartupGate_locked\<close> and so on)
    where other goroutines can run in between.
  \<^item> ProxyInv: the invariant \<open>proxy_inv\<close> (byte accounting of the queues, distinct timers and the
    wait group that counts them, the gate closed during shutdown, the store and its heap) and that
    every operation preserves it. ProxyProps: the behaviour of each operation on every branch.
    ProxyServe: \<open>Serve\<close> from its first to its last line, for its own goroutine.
  \<^item> ProxySystem: the goroutines interleaved. A state is the proxy with the phase each goroutine is
    in and the holder of \<open>admissionMu\<close>; \<open>sys_step\<close> has one rule per atomic step, guarded by the locks
    the code takes. ProxyRuns: invariants of all its runs. ProxyRefine: that the sequential handler
    is a run of the listener's steps, and the properties of every reachable state. ProxyProgress:
    that the locks cannot deadlock.
  \<^item> App (cmd/main.go): the constructors, \<open>run\<close> as a sequence of effects, \<open>main\<close>; how a valid
    configuration fits the constructors it is passed to.

  \<^bold>\<open>What is shown.\<close> Over all interleavings: no stop request is in flight while a session exists or
  can be admitted; datagrams reach the backend in order, at most once, in their own client's
  session; one startup runs at a time; buffers, counters and the store stay within their limits;
  no session or queue is leaked; the locks never deadlock; nothing undoes a shutdown. For single operations: the startup
  procedure opens the gate only on confirmed readiness, sends no duplicate start and returns when
  its context ends; auto-stop, sweeping and the health monitor do exactly what they are meant to;
  every failure cleans up; \<open>Serve\<close> returns when its socket fails or is closed and leaves the proxy
  shut down. For the other parts: sessions and store by their invariants and exact effects; the
  detector, the panel client and the probes by classification of every answer, with bounds and
  termination; the configuration by an exact specification of the overrides independent of map
  order, round trips of its text, and fail-closed loading; the process by the release of all it
  opened and the report of every failure.

  \<^bold>\<open>Loops and bounds.\<close> There is no fuel. A loop that waits for the world takes the list of what its
  iterations meet and answers \<open>None\<close> while that list has not made it return; each such loop has a
  theorem that it returns once the list holds an iteration in which its context has ended (or its
  socket failed). Loops over data are structural or have a termination measure. Go's \<open>int\<close> and
  \<open>Duration\<close> are \<open>int\<close>, with the wrap-around of the retry delay and the ranges of parsed numbers
  written out; generation counters are 64-bit words.

  \<^bold>\<open>Not modelled.\<close> Log output (the decisions to log are), the Go scheduler beyond the interleaving of
  critical sections, unfairness of mutexes, time as such (clock readings are arguments), the kernel's
  sockets (their results are arguments), the third-party YAML decoder (a parameter) and the library
  parsers of URLs and JSON (parameters), redirects of the HTTP multiplexer for paths that are not
  clean, signals and process exit. The interface file pkg/games/game.go is the locale
  \<open>wake_detector\<close>. Tests, deployment files and scripts are left out.

  \<^bold>\<open>Defects found.\<close> \<open>responseError\<close> cuts an error body before it removes the secrets from it; two
  paths leave a running backend without sessions and without an auto-stop; an unreadable
  configuration file is ignored, with a message saying that it does not exist; \<open>Validate\<close> accepts panel
  settings the client refuses. Each has its theorem.
\<close>

end
